theory Spec2Isabelle
  imports Complex_Main "HOL-Library.Word"
begin

section \<open>Exceptions and arrays\<close>

text \<open>
  The exceptions that the Python code of \<^verbatim>\<open>app.py\<close> can raise, directly or through
  numpy, torch and OpenCV.  \<open>DimensionMismatchError\<close> and \<open>ChannelError\<close> are the two
  names of the specification's taxonomy; the source defines no exception class of its own
  and no function of the model ever returns them.
\<close>

datatype error =
    IndexError | TypeError | ValueError | AttributeError | RuntimeError | LinAlgError
  | CvError | DimensionMismatchError | ChannelError

text \<open>
  A numpy array or torch tensor: its shape and its elements, addressed by a full index
  (one number per axis).  Only the elements at the indices inside the shape are
  meaningful.
\<close>

record 'a ndarray =
  shape :: "nat list"
  item :: "nat list \<Rightarrow> 'a"

text \<open>All indices inside a shape, in row-major order.\<close>

fun indices :: "nat list \<Rightarrow> nat list list" where
  "indices [] = [[]]"
| "indices (d # ds) = concat (map (\<lambda>i. map ((#) i) (indices ds)) [0..<d])"

definition ndim :: "'a ndarray \<Rightarrow> nat" where
  "ndim a = length (shape a)"

text \<open>Raising an exception ends the computation: the sequencing of fallible steps.\<close>

definition ebind :: "error + 'a \<Rightarrow> ('a \<Rightarrow> error + 'b) \<Rightarrow> error + 'b" where
  "ebind m f = (case m of Inl e \<Rightarrow> Inl e | Inr x \<Rightarrow> f x)"

text \<open>Building and reading arrays of one, two, three and four axes.\<close>

definition mk1 :: "nat \<Rightarrow> (nat \<Rightarrow> 'a) \<Rightarrow> 'a ndarray" where
  "mk1 n f = \<lparr>shape = [n], item = (\<lambda>ix. f (ix ! 0))\<rparr>"

definition mk2 :: "nat \<Rightarrow> nat \<Rightarrow> (nat \<Rightarrow> nat \<Rightarrow> 'a) \<Rightarrow> 'a ndarray" where
  "mk2 r c f = \<lparr>shape = [r, c], item = (\<lambda>ix. f (ix ! 0) (ix ! 1))\<rparr>"

definition mk3 :: "nat \<Rightarrow> nat \<Rightarrow> nat \<Rightarrow> (nat \<Rightarrow> nat \<Rightarrow> nat \<Rightarrow> 'a) \<Rightarrow> 'a ndarray" where
  "mk3 a b c f = \<lparr>shape = [a, b, c], item = (\<lambda>ix. f (ix ! 0) (ix ! 1) (ix ! 2))\<rparr>"

definition mk4 ::
  "nat \<Rightarrow> nat \<Rightarrow> nat \<Rightarrow> nat \<Rightarrow> (nat \<Rightarrow> nat \<Rightarrow> nat \<Rightarrow> nat \<Rightarrow> 'a) \<Rightarrow> 'a ndarray" where
  "mk4 a b c d f =
     \<lparr>shape = [a, b, c, d], item = (\<lambda>ix. f (ix ! 0) (ix ! 1) (ix ! 2) (ix ! 3))\<rparr>"

definition at1 :: "'a ndarray \<Rightarrow> nat \<Rightarrow> 'a" where
  "at1 a i = item a [i]"

definition at2 :: "'a ndarray \<Rightarrow> nat \<Rightarrow> nat \<Rightarrow> 'a" where
  "at2 a i j = item a [i, j]"

definition at3 :: "'a ndarray \<Rightarrow> nat \<Rightarrow> nat \<Rightarrow> nat \<Rightarrow> 'a" where
  "at3 a i j k = item a [i, j, k]"

definition at4 :: "'a ndarray \<Rightarrow> nat \<Rightarrow> nat \<Rightarrow> nat \<Rightarrow> nat \<Rightarrow> 'a" where
  "at4 a n k i j = item a [n, k, i, j]"

section \<open>Colour-space helpers of class Fusion\<close>

text \<open>\<^verbatim>\<open>img[:, :, k]\<close>: numpy raises IndexError when the array has fewer than three
  axes or when \<open>k\<close> is not below the size of axis 2.\<close>

definition take_axis2 :: "'a ndarray \<Rightarrow> nat \<Rightarrow> error + 'a ndarray" where
  "take_axis2 a k =
     (if ndim a < 3 then Inl IndexError
      else if shape a ! 2 \<le> k then Inl IndexError
      else Inr \<lparr>shape = take 2 (shape a) @ drop 3 (shape a),
                item = (\<lambda>ix. item a (take 2 ix @ k # drop 2 ix))\<rparr>)"

text \<open>\<^verbatim>\<open>(b == g).all()\<close> for two arrays of the same shape.\<close>

definition all_equal :: "'a ndarray \<Rightarrow> 'a ndarray \<Rightarrow> bool" where
  "all_equal b g = list_all (\<lambda>ix. item b ix = item g ix) (indices (shape b))"

text \<open>\<^verbatim>\<open>Fusion._is_gray\<close> (lines 206-217).\<close>

definition is_gray :: "'a ndarray \<Rightarrow> error + bool" where
  "is_gray img =
     (if length (shape img) < 3 then Inr True
      else if shape img ! 2 = 1 then Inr True
      else
        ebind (take_axis2 img 0) (\<lambda>b.
        ebind (take_axis2 img 1) (\<lambda>g.
        ebind (take_axis2 img 2) (\<lambda>r.
          if all_equal b g \<and> all_equal b r then Inr True else Inr False))))"

section \<open>Procrustes alignment\<close>

definition nrows :: "'a ndarray \<Rightarrow> nat" where
  "nrows A = shape A ! 0"

definition ncols :: "'a ndarray \<Rightarrow> nat" where
  "ncols A = shape A ! 1"

text \<open>The numpy operations that \<^verbatim>\<open>procrustes\<close> uses, on arrays of reals (the
  idealisation of the double-precision floats of the source).\<close>

definition mean0 :: "real ndarray \<Rightarrow> real ndarray" where
  \<comment> \<open>\<^verbatim>\<open>X.mean(0)\<close> of a matrix: the mean of every column\<close>
  "mean0 X = mk1 (ncols X) (\<lambda>j. (\<Sum>i<nrows X. at2 X i j) / real (nrows X))"

definition sub_row :: "real ndarray \<Rightarrow> real ndarray \<Rightarrow> real ndarray" where
  \<comment> \<open>\<^verbatim>\<open>X - muX\<close>, the row vector broadcast over the rows\<close>
  "sub_row X mu = mk2 (nrows X) (ncols X) (\<lambda>i j. at2 X i j - at1 mu j)"

definition sum_sq :: "real ndarray \<Rightarrow> real" where
  \<comment> \<open>\<^verbatim>\<open>(X0**2.).sum()\<close>\<close>
  "sum_sq X = (\<Sum>i<nrows X. \<Sum>j<ncols X. (at2 X i j)\<^sup>2)"

definition div_scalar :: "real ndarray \<Rightarrow> real \<Rightarrow> real ndarray" where
  \<comment> \<open>\<^verbatim>\<open>X0 /= normX\<close>\<close>
  "div_scalar X c = mk2 (nrows X) (ncols X) (\<lambda>i j. at2 X i j / c)"

definition transpose2 :: "real ndarray \<Rightarrow> real ndarray" where
  \<comment> \<open>\<^verbatim>\<open>A.T\<close> of a matrix\<close>
  "transpose2 A = mk2 (ncols A) (nrows A) (\<lambda>i j. at2 A j i)"

definition dot :: "real ndarray \<Rightarrow> real ndarray \<Rightarrow> error + real ndarray" where
  \<comment> \<open>\<^verbatim>\<open>np.dot\<close> of two matrices: ValueError when the inner sizes differ\<close>
  "dot A B =
     (if ncols A \<noteq> nrows B then Inl ValueError
      else Inr (mk2 (nrows A) (ncols B)
                  (\<lambda>i j. \<Sum>k<ncols A. at2 A i k * at2 B k j)))"

definition dot_vec :: "real ndarray \<Rightarrow> real ndarray \<Rightarrow> error + real ndarray" where
  \<comment> \<open>\<^verbatim>\<open>np.dot\<close> of a vector and a matrix\<close>
  "dot_vec v B =
     (if nrows v \<noteq> nrows B then Inl ValueError
      else Inr (mk1 (ncols B) (\<lambda>j. \<Sum>k<nrows v. at1 v k * at2 B k j)))"

definition neg_last_col :: "real ndarray \<Rightarrow> error + real ndarray" where
  \<comment> \<open>\<^verbatim>\<open>V[:,-1] *= -1\<close>: IndexError on a matrix with no column\<close>
  "neg_last_col V =
     (if ncols V = 0 then Inl IndexError
      else Inr (mk2 (nrows V) (ncols V)
                  (\<lambda>i j. if j = ncols V - 1 then - at2 V i j else at2 V i j)))"

definition neg_last :: "real ndarray \<Rightarrow> error + real ndarray" where
  \<comment> \<open>\<^verbatim>\<open>s[-1] *= -1\<close>: IndexError on an empty vector\<close>
  "neg_last s =
     (if nrows s = 0 then Inl IndexError
      else Inr (mk1 (nrows s) (\<lambda>j. if j = nrows s - 1 then - at1 s j else at1 s j)))"

definition vec_sum :: "real ndarray \<Rightarrow> real" where
  \<comment> \<open>\<^verbatim>\<open>s.sum()\<close>\<close>
  "vec_sum s = (\<Sum>k<nrows s. at1 s k)"

definition scale_add_row :: "real \<Rightarrow> real ndarray \<Rightarrow> real ndarray \<Rightarrow> real ndarray" where
  \<comment> \<open>\<^verbatim>\<open>c * M + mu\<close>, the row vector broadcast over the rows\<close>
  "scale_add_row c M mu = mk2 (nrows M) (ncols M) (\<lambda>i j. c * at2 M i j + at1 mu j)"

definition take_rows :: "nat \<Rightarrow> real ndarray \<Rightarrow> real ndarray" where
  \<comment> \<open>\<^verbatim>\<open>T[:my,:]\<close>\<close>
  "take_rows k T = mk2 (min k (nrows T)) (ncols T) (\<lambda>i j. at2 T i j)"

definition vec_sub_scaled :: "real ndarray \<Rightarrow> real \<Rightarrow> real ndarray \<Rightarrow> real ndarray" where
  \<comment> \<open>\<^verbatim>\<open>muX - b * v\<close>\<close>
  "vec_sub_scaled mu b v = mk1 (nrows mu) (\<lambda>j. at1 mu j - b * at1 v j)"

text \<open>\<^verbatim>\<open>np.linalg.det\<close>: the determinant by expansion along the first row;
  LinAlgError when the matrix is not square.\<close>

fun det_fn :: "nat \<Rightarrow> (nat \<Rightarrow> nat \<Rightarrow> real) \<Rightarrow> real" where
  "det_fn 0 f = 1"
| "det_fn (Suc n) f =
     (\<Sum>j<Suc n. (- 1) ^ j * f 0 j * det_fn n (\<lambda>r c. f (Suc r) (if c < j then c else Suc c)))"

definition det :: "real ndarray \<Rightarrow> error + real" where
  "det T =
     (if nrows T \<noteq> ncols T then Inl LinAlgError
      else Inr (det_fn (nrows T) (at2 T)))"

datatype reflection = Best | Force bool

record tform =
  rotation :: "real ndarray"
  scale :: real
  translation :: "real ndarray"

text \<open>
  \<^verbatim>\<open>procrustes\<close> (lines 32-100).  The singular value decomposition
  \<^verbatim>\<open>np.linalg.svd(A, full_matrices=False)\<close> is a library routine: the model takes it
  as the parameter \<open>svd\<close>, which returns \<open>(U, s, Vt)\<close> or raises.

  Two places need a word.  \<^verbatim>\<open>np.zeros(n, m-my)\<close> passes the integer \<open>m - my\<close> where
  numpy expects a dtype, and numpy raises TypeError for an integer there; so the branch
  \<open>my < m\<close> raises.  Dividing by a norm that is zero gives NaN entries in floating point
  (no exception), on which the decomposition does not converge: the model raises
  LinAlgError at the call of \<open>svd\<close> then, the reals having no NaN.
\<close>

definition zeros_dtype_int :: "nat \<Rightarrow> int \<Rightarrow> error + real ndarray" where
  \<comment> \<open>\<^verbatim>\<open>np.zeros(n, k)\<close> with an integer \<open>k\<close> in the dtype position\<close>
  "zeros_dtype_int n k = Inl TypeError"

definition concatenate0 :: "real ndarray \<Rightarrow> real ndarray \<Rightarrow> error + real ndarray" where
  \<comment> \<open>\<^verbatim>\<open>np.concatenate((A, B), 0)\<close>: B's rows below A's\<close>
  "concatenate0 A B =
     (if ndim A \<noteq> ndim B \<or> drop 1 (shape A) \<noteq> drop 1 (shape B) then Inl ValueError
      else Inr \<lparr>shape = (shape A ! 0 + shape B ! 0) # drop 1 (shape A),
                item = (\<lambda>ix. if ix ! 0 < shape A ! 0 then item A ix
                              else item B ((ix ! 0 - shape A ! 0) # drop 1 ix))\<rparr>)"

definition procrustes ::
  "(real ndarray \<Rightarrow> error + real ndarray \<times> real ndarray \<times> real ndarray) \<Rightarrow>
   real ndarray \<Rightarrow> real ndarray \<Rightarrow> bool \<Rightarrow> reflection \<Rightarrow>
   error + real \<times> real ndarray \<times> tform" where
  "procrustes svd X Y scaling reflect =
    (if ndim X \<noteq> 2 \<or> ndim Y \<noteq> 2 then Inl ValueError
     else
       let n = nrows X; m = ncols X;
           ny = nrows Y; my = ncols Y;
           muX = mean0 X; muY = mean0 Y;
           X0c = sub_row X muX; Y0c = sub_row Y muY;
           ssX = sum_sq X0c; ssY = sum_sq Y0c;
           normX = sqrt ssX; normY = sqrt ssY;
           X0 = div_scalar X0c normX;
           Y0n = div_scalar Y0c normY
       in
       ebind (if my < m
              then ebind (zeros_dtype_int n (int m - int my)) (\<lambda>z. concatenate0 Y0n z)
              else Inr Y0n) (\<lambda>Y0.
       ebind (dot (transpose2 X0) Y0) (\<lambda>A.
       ebind (if normX = 0 \<or> normY = 0 then Inl LinAlgError else svd A) (\<lambda>(U, s, Vt).
       let V = transpose2 Vt in
       ebind (dot V (transpose2 U)) (\<lambda>T0.
       ebind (case reflect of
                Best \<Rightarrow> Inr (s, T0)
              | Force r \<Rightarrow>
                  ebind (det T0) (\<lambda>dt.
                    let have_reflection = (dt < 0) in
                    if r \<noteq> have_reflection
                    then ebind (neg_last_col V) (\<lambda>V'.
                         ebind (neg_last s) (\<lambda>s'.
                         ebind (dot V' (transpose2 U)) (\<lambda>T'. Inr (s', T'))))
                    else Inr (s, T0))) (\<lambda>(s1, T).
       let traceTA = vec_sum s1 in
       ebind (dot Y0 T) (\<lambda>YT.
       let b = (if scaling then traceTA * normX / normY else 1);
           d = (if scaling then 1 - traceTA\<^sup>2
                else 1 + ssY / ssX - 2 * traceTA * normY / normX);
           Z = (if scaling then scale_add_row (normX * traceTA) YT muX
                else scale_add_row normY YT muX);
           T1 = (if my < m then take_rows my T else T)
       in
       ebind (dot_vec muY T1) (\<lambda>muYT.
         Inr (d, Z, \<lparr>rotation = T1, scale = b,
                     translation = vec_sub_scaled muX b muYT\<rparr>)))))))))"

text \<open>
  What is asked of the decomposition routine where a theorem needs its output's shapes:
  for an \<open>r \<times> c\<close> matrix and \<open>k = min r c\<close>, the reduced decomposition has \<open>U\<close> of
  shape \<open>(r, k)\<close>, \<open>s\<close> of length \<open>k\<close> and \<open>Vt\<close> of shape \<open>(k, c)\<close>.
\<close>

definition svd_shaped ::
  "(real ndarray \<Rightarrow> error + real ndarray \<times> real ndarray \<times> real ndarray) \<Rightarrow> bool" where
  "svd_shaped svd =
     (\<forall>A U s Vt. svd A = Inr (U, s, Vt) \<longrightarrow>
        shape U = [nrows A, min (nrows A) (ncols A)] \<and>
        shape s = [min (nrows A) (ncols A)] \<and>
        shape Vt = [min (nrows A) (ncols A), ncols A])"

text \<open>
  What is asked of the decomposition routine where a theorem needs the decomposition
  itself: besides the shapes, \<open>A = U diag(s) Vt\<close>, the columns of \<open>U\<close> and the rows of
  \<open>Vt\<close> are orthonormal, and the singular values are not negative.
\<close>

definition svd_valid ::
  "(real ndarray \<Rightarrow> error + real ndarray \<times> real ndarray \<times> real ndarray) \<Rightarrow> bool" where
  "svd_valid svd =
     (\<forall>A U s Vt. svd A = Inr (U, s, Vt) \<longrightarrow>
        (let r = nrows A; c = ncols A; k = min r c in
         shape U = [r, k] \<and> shape s = [k] \<and> shape Vt = [k, c] \<and>
         (\<forall>i<r. \<forall>j<c. at2 A i j = (\<Sum>l<k. at2 U i l * at1 s l * at2 Vt l j)) \<and>
         (\<forall>l<k. \<forall>m<k. (\<Sum>i<r. at2 U i l * at2 U i m) = (if l = m then 1 else 0)) \<and>
         (\<forall>l<k. \<forall>m<k. (\<Sum>j<c. at2 Vt l j * at2 Vt m j) = (if l = m then 1 else 0)) \<and>
         (\<forall>l<k. 0 \<le> at1 s l)))"

text \<open>
  The scatter of a point set about its centroid, and what "non-degenerate" means for
  points of the plane: the centred points do not lie on one line through the origin
  (by the Cauchy-Schwarz inequality the expression is never negative).
\<close>

definition scatter :: "real ndarray \<Rightarrow> nat \<Rightarrow> nat \<Rightarrow> real" where
  "scatter X a b =
     (\<Sum>i<nrows X. (at2 X i a - at1 (mean0 X) a) * (at2 X i b - at1 (mean0 X) b))"

definition nondegenerate :: "real ndarray \<Rightarrow> bool" where
  "nondegenerate X = (0 < scatter X 0 0 * scatter X 1 1 - scatter X 0 1 * scatter X 0 1)"

text \<open>
  A point set that is a rotated (or reflected), scaled and translated copy of another:
  \<open>Y = s X R + t\<close>, row by row, with \<open>R\<close> orthogonal and \<open>s\<close> positive.
\<close>

definition orthogonal2 :: "real ndarray \<Rightarrow> bool" where
  "orthogonal2 R =
     (shape R = [2, 2] \<and>
      (at2 R 0 0)\<^sup>2 + (at2 R 0 1)\<^sup>2 = 1 \<and> (at2 R 1 0)\<^sup>2 + (at2 R 1 1)\<^sup>2 = 1 \<and>
      at2 R 0 0 * at2 R 1 0 + at2 R 0 1 * at2 R 1 1 = 0)"

definition similar_copy ::
  "real ndarray \<Rightarrow> real \<Rightarrow> real ndarray \<Rightarrow> real ndarray \<Rightarrow> real ndarray \<Rightarrow> bool" where
  "similar_copy X s R t Y =
     (shape Y = shape X \<and> orthogonal2 R \<and> 0 < s \<and> shape t = [2] \<and>
      list_all (\<lambda>i. list_all (\<lambda>j.
          at2 Y i j = s * (at2 X i 0 * at2 R 0 j + at2 X i 1 * at2 R 1 j) + at1 t j) [0..<2])
        [0..<nrows X])"

section \<open>Matrices of size 2\<close>

text \<open>The algebra of 2 x 2 matrices, row by row as four numbers, in which the facts on
  \<^verbatim>\<open>procrustes\<close> are proved.\<close>

type_synonym mat2 = "real \<times> real \<times> real \<times> real"

fun mm :: "mat2 \<Rightarrow> mat2 \<Rightarrow> mat2" where
  "mm (a, b, c, d) (e, f, g, h) = (a * e + b * g, a * f + b * h, c * e + d * g, c * f + d * h)"

fun tp :: "mat2 \<Rightarrow> mat2" where
  "tp (a, b, c, d) = (a, c, b, d)"

fun det2 :: "mat2 \<Rightarrow> real" where
  "det2 (a, b, c, d) = a * d - b * c"

fun tr2 :: "mat2 \<Rightarrow> real" where
  "tr2 (a, b, c, d) = a + d"

definition I2 :: mat2 where
  "I2 = (1, 0, 0, 1)"

definition diag2 :: "real \<Rightarrow> real \<Rightarrow> mat2" where
  "diag2 x y = (x, 0, 0, y)"

definition m2 :: "real ndarray \<Rightarrow> mat2" where
  "m2 A = (at2 A 0 0, at2 A 0 1, at2 A 1 0, at2 A 1 1)"

text \<open>The scatter matrix of a point set of the plane, divided by its trace.\<close>

definition normalised_scatter :: "real ndarray \<Rightarrow> mat2" where
  "normalised_scatter X =
     (let q = scatter X 0 0 + scatter X 1 1 in
      (scatter X 0 0 / q, scatter X 0 1 / q, scatter X 0 1 / q, scatter X 1 1 / q))"

section \<open>The feature extractor\<close>

text \<open>
  \<^verbatim>\<open>VGG19\<close> wraps the layers of torchvision's pretrained network.  The layers and
  their weights are not part of the repository: the model takes them as a list of
  functions on tensors, each of which may raise (torch's RuntimeError on a shape it does
  not accept).  \<^verbatim>\<open>VGG19.forward\<close> (lines 108-114) runs the tensor through every layer
  in order and keeps the activation of the layer at index 3.
\<close>

type_synonym tensor = "real ndarray"

type_synonym layer = "tensor \<Rightarrow> error + tensor"

fun forward_loop :: "layer list \<Rightarrow> nat \<Rightarrow> tensor \<Rightarrow> tensor list \<Rightarrow> error + tensor list" where
  "forward_loop [] idx x feature_maps = Inr feature_maps"
| "forward_loop (l # ls) idx x feature_maps =
     ebind (l x) (\<lambda>x'.
       forward_loop ls (Suc idx) x' (if idx = 3 then feature_maps @ [x'] else feature_maps))"

definition forward :: "layer list \<Rightarrow> tensor \<Rightarrow> error + tensor list" where
  "forward layers x = forward_loop layers 0 x []"

section \<open>Tensor operations of the fusion\<close>

text \<open>Running a fallible step over a list, in order, stopping at the first exception.\<close>

fun emap :: "('a \<Rightarrow> error + 'b) \<Rightarrow> 'a list \<Rightarrow> error + 'b list" where
  "emap f [] = Inr []"
| "emap f (x # xs) = ebind (f x) (\<lambda>y. ebind (emap f xs) (\<lambda>ys. Inr (y # ys)))"

text \<open>\<^verbatim>\<open>torch.sum(feature_map, dim=1, keepdim=True)\<close>.\<close>

definition sum_dim1 :: "tensor \<Rightarrow> error + tensor" where
  "sum_dim1 t =
     (if ndim t < 2 then Inl IndexError
      else Inr \<lparr>shape = (shape t)[1 := 1],
                item = (\<lambda>ix. \<Sum>k<ncols t. item t (ix[1 := k]))\<rparr>)"

text \<open>\<^verbatim>\<open>torch.cat(sum_maps, dim=1)\<close>: the tensors must agree on every axis but axis 1.\<close>

fun cat_item :: "tensor list \<Rightarrow> nat list \<Rightarrow> real" where
  "cat_item [] ix = 0"
| "cat_item (t # ts) ix =
     (if ix ! 1 < ncols t then item t ix else cat_item ts (ix[1 := ix ! 1 - ncols t]))"

definition cat_dim1 :: "tensor list \<Rightarrow> error + tensor" where
  "cat_dim1 ts =
     (case ts of
        [] \<Rightarrow> Inl RuntimeError
      | t0 # rest \<Rightarrow>
          if list_ex (\<lambda>t. ndim t < 2 \<or> (shape t)[1 := 0] \<noteq> (shape t0)[1 := 0]) ts
          then Inl RuntimeError
          else Inr \<lparr>shape = (shape t0)[1 := sum_list (map ncols ts)], item = cat_item ts\<rparr>)"

text \<open>
  \<^verbatim>\<open>F.interpolate(x, size=size)\<close> in its default mode \<open>nearest\<close>, for a tensor of four
  axes and a size of two numbers: output pixel \<open>(i, j)\<close> reads input pixel
  \<open>(i * h div H, j * w div W)\<close>.  When the sizes agree it is the identity.
\<close>

definition interpolate :: "'a ndarray \<Rightarrow> nat list \<Rightarrow> error + 'a ndarray" where
  "interpolate x sz =
     (if ndim x \<noteq> 4 \<or> length sz \<noteq> 2 then Inl ValueError
      else
        let h = shape x ! 2; w = shape x ! 3; H = sz ! 0; W = sz ! 1 in
        if h = 0 \<or> w = 0 \<or> H = 0 \<or> W = 0 then Inl RuntimeError
        else Inr (mk4 (shape x ! 0) (shape x ! 1) H W
                    (\<lambda>n k i j. at4 x n k (i * h div H) (j * w div W))))"

text \<open>\<^verbatim>\<open>Fusion._softmax\<close> (lines 219-225): exponentiate, divide by the sum over axis 1.
  Over the reals: these are the values of the source as long as \<^verbatim>\<open>torch.exp\<close> and the sum
  stay in the range of float32; what happens beyond it is followed by \<open>softmax_f32\<close>
  below.\<close>

definition exp_tensor :: "tensor \<Rightarrow> tensor" where
  "exp_tensor t = \<lparr>shape = shape t, item = (\<lambda>ix. exp (item t ix))\<rparr>"

definition softmax :: "tensor \<Rightarrow> error + tensor" where
  "softmax t =
     (let e = exp_tensor t in
      ebind (sum_dim1 e) (\<lambda>s.
        Inr \<lparr>shape = shape e, item = (\<lambda>ix. item e ix / item s (ix[1 := 0]))\<rparr>))"

text \<open>\<^verbatim>\<open>weights[:, idx]\<close>.\<close>

definition select_dim1 :: "tensor \<Rightarrow> nat \<Rightarrow> error + tensor" where
  "select_dim1 w idx =
     (if ndim w < 2 \<or> ncols w \<le> idx then Inl IndexError
      else Inr \<lparr>shape = nrows w # drop 2 (shape w),
                item = (\<lambda>ix. item w (ix ! 0 # idx # drop 1 ix))\<rparr>)"

text \<open>
  Broadcasting: shapes are aligned at their last axes; two sizes are compatible when they
  are equal or one of them is 1.  \<open>bshape_rev\<close> works on reversed shapes.  An operand is
  read at the last axes of the result's index, at 0 along an axis of size 1.
\<close>

fun bshape_rev :: "nat list \<Rightarrow> nat list \<Rightarrow> nat list option" where
  "bshape_rev [] ys = Some ys"
| "bshape_rev (x # xs) [] = Some (x # xs)"
| "bshape_rev (x # xs) (y # ys) =
     (if x = y \<or> y = 1 then map_option ((#) x) (bshape_rev xs ys)
      else if x = 1 then map_option ((#) y) (bshape_rev xs ys)
      else None)"

definition bshape :: "nat list \<Rightarrow> nat list \<Rightarrow> nat list option" where
  "bshape s1 s2 = map_option rev (bshape_rev (rev s1) (rev s2))"

definition bidx :: "nat list \<Rightarrow> nat list \<Rightarrow> nat list" where
  "bidx s ix = map2 (\<lambda>d i. if d = 1 then 0 else i) s (drop (length ix - length s) ix)"

definition bitem :: "'a ndarray \<Rightarrow> nat list \<Rightarrow> 'a" where
  "bitem a ix = item a (bidx (shape a) ix)"

definition mul :: "tensor \<Rightarrow> tensor \<Rightarrow> error + tensor" where
  \<comment> \<open>\<^verbatim>\<open>a * b\<close>\<close>
  "mul a b =
     (case bshape (shape a) (shape b) of
        None \<Rightarrow> Inl RuntimeError
      | Some sh \<Rightarrow> Inr \<lparr>shape = sh, item = (\<lambda>ix. bitem a ix * bitem b ix)\<rparr>)"

definition iadd :: "tensor \<Rightarrow> tensor \<Rightarrow> error + tensor" where
  \<comment> \<open>\<^verbatim>\<open>a += b\<close>: the result must have the shape of \<open>a\<close>\<close>
  "iadd a b =
     (if bshape (shape a) (shape b) = Some (shape a)
      then Inr \<lparr>shape = shape a, item = (\<lambda>ix. item a ix + bitem b ix)\<rparr>
      else Inl RuntimeError)"

definition torch_max :: "tensor \<Rightarrow> tensor \<Rightarrow> error + tensor" where
  \<comment> \<open>\<^verbatim>\<open>torch.max(a, b)\<close>, element-wise\<close>
  "torch_max a b =
     (case bshape (shape a) (shape b) of
        None \<Rightarrow> Inl RuntimeError
      | Some sh \<Rightarrow> Inr \<lparr>shape = sh, item = (\<lambda>ix. max (bitem a ix) (bitem b ix))\<rparr>)"

definition zeros :: "nat list \<Rightarrow> tensor" where
  "zeros sh = \<lparr>shape = sh, item = (\<lambda>ix. 0)\<rparr>"

text \<open>\<^verbatim>\<open>np.squeeze\<close>: the axes of size 1 are dropped.\<close>

fun unsqueeze_idx :: "nat list \<Rightarrow> nat list \<Rightarrow> nat list" where
  "unsqueeze_idx [] ix = []"
| "unsqueeze_idx (d # ds) ix =
     (if d = 1 then 0 # unsqueeze_idx ds ix
      else (case ix of [] \<Rightarrow> 0 # unsqueeze_idx ds [] | i # rest \<Rightarrow> i # unsqueeze_idx ds rest))"

definition squeeze :: "'a ndarray \<Rightarrow> 'a ndarray" where
  "squeeze a = \<lparr>shape = filter (\<lambda>d. d \<noteq> 1) (shape a),
                item = (\<lambda>ix. item a (unsqueeze_idx (shape a) ix))\<rparr>"

definition transpose_120 :: "'a ndarray \<Rightarrow> 'a ndarray" where
  \<comment> \<open>\<^verbatim>\<open>np.transpose(output, (1, 2, 0))\<close> of an array of three axes\<close>
  "transpose_120 a =
     mk3 (shape a ! 1) (shape a ! 2) (shape a ! 0) (\<lambda>i j k. at3 a k i j)"

section \<open>The fusion algorithm\<close>

text \<open>
  The body of the loop over the tap depths in \<^verbatim>\<open>Fusion._fuse\<close>: the weight map of one
  depth (lines 173-177) and the weighted sum of the images (lines 178-180).
\<close>

definition weight_map :: "tensor list \<Rightarrow> tensor list \<Rightarrow> error + tensor" where
  "weight_map images_to_tensors sum_maps =
     ebind (cat_dim1 sum_maps) (\<lambda>features.
     case images_to_tensors of
       [] \<Rightarrow> Inl IndexError
     | t0 # rest \<Rightarrow>
         ebind (interpolate features (drop 2 (shape t0))) (\<lambda>f.
         ebind (softmax f) (\<lambda>weights.
         interpolate weights (drop 2 (shape t0)))))"

fun weighted_sum :: "tensor list \<Rightarrow> nat \<Rightarrow> tensor \<Rightarrow> tensor \<Rightarrow> error + tensor" where
  "weighted_sum [] idx weights current_fusion = Inr current_fusion"
| "weighted_sum (tensor_img # rest) idx weights current_fusion =
     ebind (select_dim1 weights idx) (\<lambda>w.
     ebind (mul tensor_img w) (\<lambda>p.
     ebind (iadd current_fusion p) (\<lambda>cf.
     weighted_sum rest (Suc idx) weights cf)))"

definition current_fusion_of :: "tensor list \<Rightarrow> tensor list \<Rightarrow> error + tensor" where
  "current_fusion_of images_to_tensors sum_maps =
     ebind (weight_map images_to_tensors sum_maps) (\<lambda>weights.
     case images_to_tensors of
       [] \<Rightarrow> Inl IndexError
     | t0 # rest \<Rightarrow> weighted_sum images_to_tensors 0 weights (zeros (shape t0)))"

text \<open>\<^verbatim>\<open>zip(*imgs_sum_maps)\<close>: one tuple per depth that every image has.\<close>

fun min_len :: "'a list list \<Rightarrow> nat" where
  "min_len [] = 0"
| "min_len [xs] = length xs"
| "min_len (xs # ys # xss) = min (length xs) (min_len (ys # xss))"

definition zip_star :: "'a list list \<Rightarrow> 'a list list" where
  "zip_star xss = map (\<lambda>d. map (\<lambda>xs. xs ! d) xss) [0..<min_len xss]"

text \<open>The loop over the depths (lines 171-184): \<open>max_fusion\<close> starts as \<open>None\<close>.\<close>

fun depth_loop :: "tensor list \<Rightarrow> tensor list list \<Rightarrow> tensor option \<Rightarrow> error + tensor option" where
  "depth_loop images_to_tensors [] max_fusion = Inr max_fusion"
| "depth_loop images_to_tensors (sum_maps # rest) max_fusion =
     ebind (current_fusion_of images_to_tensors sum_maps) (\<lambda>current_fusion.
       case max_fusion of
         None \<Rightarrow> depth_loop images_to_tensors rest (Some current_fusion)
       | Some m \<Rightarrow>
           ebind (torch_max m current_fusion) (\<lambda>m'.
             depth_loop images_to_tensors rest (Some m')))"

text \<open>The saliency maps of one image (lines 165-169).\<close>

definition sum_maps_of :: "layer list \<Rightarrow> tensor \<Rightarrow> error + tensor list" where
  "sum_maps_of layers tensor_img =
     ebind (forward layers tensor_img) (\<lambda>feature_maps. emap sum_dim1 feature_maps)"

text \<open>The layout that \<^verbatim>\<open>_fuse\<close> returns (lines 186-189).\<close>

definition output_layout :: "tensor \<Rightarrow> tensor" where
  "output_layout m = (let output = squeeze m in
                      if ndim output = 3 then transpose_120 output else output)"

text \<open>\<^verbatim>\<open>Fusion._fuse\<close> (lines 157-189), on the tensors of the images.  With no
  depth to loop over, \<open>max_fusion\<close> is still \<open>None\<close> and \<^verbatim>\<open>max_fusion.cpu()\<close> raises
  AttributeError.\<close>

definition fuse_private :: "layer list \<Rightarrow> tensor list \<Rightarrow> error + tensor" where
  "fuse_private layers images_to_tensors =
     ebind (emap (sum_maps_of layers) images_to_tensors) (\<lambda>imgs_sum_maps.
     ebind (depth_loop images_to_tensors (zip_star imgs_sum_maps) None) (\<lambda>max_fusion.
       case max_fusion of
         None \<Rightarrow> Inl AttributeError
       | Some m \<Rightarrow> Inr (output_layout m)))"

text \<open>Running a tensor through a list of layers, \<^verbatim>\<open>x = layer(x)\<close> for each: the
  activation after the last of them.\<close>

fun run_layers :: "layer list \<Rightarrow> tensor \<Rightarrow> error + tensor" where
  "run_layers [] x = Inr x"
| "run_layers (l # ls) x = ebind (l x) (run_layers ls)"

section \<open>The weight map in the range of float32\<close>

text \<open>
  The tensors of the source hold 32-bit floats.  Everywhere else the model identifies a
  float with the real number it approximates; for the weight map this section follows the
  range of the floats as well, because \<^verbatim>\<open>torch.exp\<close> leaves it: a value is a finite
  number (rounding is still left out), \<open>+inf\<close> or NaN.  Exponentials, their sums and their
  quotients are never negative, so \<open>-inf\<close> does not arise.
\<close>

datatype f32 = Num real | PosInf | NotANumber

text \<open>
  A real number of at least \<open>2\<^sup>1\<^sup>2\<^sup>8 - 2\<^sup>1\<^sup>0\<^sup>3\<close> (the largest float plus half the gap to its
  predecessor) rounds to \<open>+inf\<close>; one of at most \<open>2\<^sup>-\<^sup>1\<^sup>5\<^sup>0\<close> (half the least positive
  float) rounds to 0.  For the exponential this means: \<open>+inf\<close> from about 88.72 on, and
  0 below about -103.97.
\<close>

definition f32_overflow :: real where
  "f32_overflow = 2 ^ 128 - 2 ^ 103"

definition f32_underflow :: real where
  "f32_underflow = 1 / 2 ^ 150"

definition to_f32 :: "real \<Rightarrow> f32" where
  \<comment> \<open>the float of a real that is not negative\<close>
  "to_f32 r = (if f32_overflow \<le> r then PosInf
               else if r \<le> f32_underflow then Num 0 else Num r)"

fun add_f32 :: "f32 \<Rightarrow> f32 \<Rightarrow> f32" where
  "add_f32 (Num a) (Num b) = to_f32 (a + b)"
| "add_f32 NotANumber y = NotANumber"
| "add_f32 x NotANumber = NotANumber"
| "add_f32 PosInf y = PosInf"
| "add_f32 x PosInf = PosInf"

text \<open>The quotient of two values that are not negative; \<open>0/0\<close> and \<open>inf/inf\<close> are NaN.  A
  quotient of finite values that is at most 1 cannot overflow.\<close>

fun div_f32 :: "f32 \<Rightarrow> f32 \<Rightarrow> f32" where
  "div_f32 (Num a) (Num b) =
     (if b = 0 then (if a = 0 then NotANumber else PosInf) else Num (a / b))"
| "div_f32 (Num a) PosInf = Num 0"
| "div_f32 PosInf (Num b) = PosInf"
| "div_f32 PosInf PosInf = NotANumber"
| "div_f32 NotANumber y = NotANumber"
| "div_f32 x NotANumber = NotANumber"

text \<open>\<^verbatim>\<open>torch.exp(tensor)\<close> and \<^verbatim>\<open>tensor.sum(dim=1, keepdim=True)\<close> (lines 223-224); the
  sum adds the channels in order (the terms are not negative, so whether a partial sum
  overflows does not depend on the order).\<close>

definition exp_f32 :: "tensor \<Rightarrow> f32 ndarray" where
  "exp_f32 t = \<lparr>shape = shape t, item = (\<lambda>ix. to_f32 (exp (item t ix)))\<rparr>"

definition sum_dim1_f32 :: "f32 ndarray \<Rightarrow> error + f32 ndarray" where
  "sum_dim1_f32 t =
     (if ndim t < 2 then Inl IndexError
      else Inr \<lparr>shape = (shape t)[1 := 1],
                item = (\<lambda>ix. foldl add_f32 (Num 0)
                                (map (\<lambda>k. item t (ix[1 := k])) [0..<ncols t]))\<rparr>)"

text \<open>\<^verbatim>\<open>Fusion._softmax\<close> (lines 219-225) and the weight map of one depth (lines 173-177)
  with these values.\<close>

definition softmax_f32 :: "tensor \<Rightarrow> error + f32 ndarray" where
  "softmax_f32 t =
     (let e = exp_f32 t in
      ebind (sum_dim1_f32 e) (\<lambda>s.
        Inr \<lparr>shape = shape e, item = (\<lambda>ix. div_f32 (item e ix) (item s (ix[1 := 0])))\<rparr>))"



section \<open>The top-level method\<close>

text \<open>
  The code outside this repository that \<^verbatim>\<open>Fusion.fuse\<close> calls: the layers of the
  network and OpenCV's two colour conversions
  (\<^verbatim>\<open>cv2.cvtColor\<close> with \<^verbatim>\<open>COLOR_RGB2YCrCb\<close> and \<^verbatim>\<open>COLOR_YCrCb2RGB\<close>),
  each returning a new array or raising.
\<close>

record extern =
  features :: "layer list"
  RGB2YCrCb :: "real ndarray \<Rightarrow> error + real ndarray"
  YCrCb2RGB :: "real ndarray \<Rightarrow> error + real ndarray"

text \<open>
  \<^verbatim>\<open>fuse\<close> writes into an array (\<^verbatim>\<open>self.YCbCr_images[idx][:, :, 0] = fused_img\<close>),
  so the arrays that can be aliased live in a store: the caller's images, at the
  addresses the input sequence holds, and the arrays that the colour conversion
  allocates.  Addresses below \<open>fresh\<close> are in use; allocation takes the next one.
  Every other intermediate array is created and consumed without being written to
  again, and is a plain value.
\<close>

record store =
  cells :: "nat \<Rightarrow> real ndarray"
  fresh :: nat

type_synonym 'a st = "store \<Rightarrow> (error + 'a) \<times> store"

definition sbind :: "'a st \<Rightarrow> ('a \<Rightarrow> 'b st) \<Rightarrow> 'b st" where
  "sbind m f = (\<lambda>s. case m s of (Inl e, s') \<Rightarrow> (Inl e, s') | (Inr x, s') \<Rightarrow> f x s')"

definition lift :: "error + 'a \<Rightarrow> 'a st" where
  \<comment> \<open>a step that leaves the store alone\<close>
  "lift r = (\<lambda>s. (r, s))"

definition alloc :: "real ndarray \<Rightarrow> nat st" where
  "alloc a = (\<lambda>s. (Inr (fresh s), s\<lparr>cells := (cells s)(fresh s := a), fresh := Suc (fresh s)\<rparr>))"

definition read_cell :: "nat \<Rightarrow> (real ndarray) st" where
  "read_cell p = (\<lambda>s. (Inr (cells s p), s))"

definition div255 :: "real ndarray \<Rightarrow> real ndarray" where
  \<comment> \<open>\<^verbatim>\<open>img / 255.\<close>\<close>
  "div255 img = \<lparr>shape = shape img, item = (\<lambda>ix. item img ix / 255)\<rparr>"

definition RGB_to_YCbCr :: "extern \<Rightarrow> real ndarray \<Rightarrow> error + real ndarray" where
  \<comment> \<open>\<^verbatim>\<open>Fusion._RGB_to_YCbCr\<close> (lines 192-197)\<close>
  "RGB_to_YCbCr ext img_RGB = RGB2YCrCb ext (div255 img_RGB)"

definition YCbCr_to_RGB :: "extern \<Rightarrow> real ndarray \<Rightarrow> error + real ndarray" where
  \<comment> \<open>\<^verbatim>\<open>Fusion._YCbCr_to_RGB\<close> (lines 199-204)\<close>
  "YCbCr_to_RGB ext img_YCbCr = YCrCb2RGB ext img_YCbCr"

text \<open>The first loop of \<^verbatim>\<open>fuse\<close> (lines 135-142).  The result lists the normalised
  images and, for every colour image, the address of its YCbCr array (\<open>None\<close> stands for
  the placeholder \<open>-1\<close>).\<close>

fun normalise_all :: "extern \<Rightarrow> nat list \<Rightarrow> (real ndarray list \<times> nat option list) st" where
  "normalise_all ext [] = lift (Inr ([], []))"
| "normalise_all ext (a # rest) =
     sbind (read_cell a) (\<lambda>img.
     sbind (lift (is_gray img)) (\<lambda>gray.
       if \<not> gray then
         sbind (lift (RGB_to_YCbCr ext img)) (\<lambda>ycc.
         sbind (alloc ycc) (\<lambda>p.
         sbind (lift (take_axis2 ycc 0)) (\<lambda>y.
         sbind (normalise_all ext rest) (\<lambda>(ns, ps).
           lift (Inr (y # ns, Some p # ps))))))
       else
         sbind (normalise_all ext rest) (\<lambda>(ns, ps).
           lift (Inr (div255 img # ns, None # ps)))))"

text \<open>\<^verbatim>\<open>Fusion._tranfer_to_tensor\<close> (lines 227-241), for one image.
  \<^verbatim>\<open>np.transpose(x, (2, 0, 1))\<close> raises ValueError unless \<open>x\<close> has three axes.\<close>

definition to_tensor :: "real ndarray \<Rightarrow> error + tensor" where
  "to_tensor img =
     (if ndim img = 2
      then Inr (mk4 1 3 (shape img ! 0) (shape img ! 1) (\<lambda>n k i j. at2 img i j))
      else if ndim img = 3
      then Inr (mk4 1 (shape img ! 2) (shape img ! 0) (shape img ! 1)
                  (\<lambda>n k i j. at3 img i j k))
      else Inl ValueError)"

definition tranfer_to_tensor :: "real ndarray list \<Rightarrow> error + tensor list" where
  "tranfer_to_tensor normalized_images = emap to_tensor normalized_images"

text \<open>
  \<^verbatim>\<open>a[:, :, 0] = v\<close>: \<open>v\<close> is broadcast to the shape of the slice; numpy ignores
  leading axes of size 1 that \<open>v\<close> has in excess, and raises ValueError when the shapes do
  not fit.
\<close>

fun strip_ones :: "nat \<Rightarrow> nat list \<Rightarrow> nat list" where
  "strip_ones n [] = []"
| "strip_ones n (d # ds) = (if n < length (d # ds) \<and> d = 1 then strip_ones n ds else d # ds)"

definition assign_axis2_0 :: "real ndarray \<Rightarrow> real ndarray \<Rightarrow> error + real ndarray" where
  "assign_axis2_0 a v =
     (if ndim a < 3 \<or> shape a ! 2 = 0 then Inl IndexError
      else
        let target = take 2 (shape a) @ drop 3 (shape a);
            src = strip_ones (length target) (shape v)
        in if bshape target src = Some target
           then Inr \<lparr>shape = shape a,
                     item = (\<lambda>ix. if ix ! 2 = 0
                                   then item v (replicate (ndim v - length src) 0 @
                                                bidx src (take 2 ix @ drop 3 ix))
                                   else item a ix)\<rparr>
           else Inl ValueError)"

definition write_luminance :: "nat \<Rightarrow> real ndarray \<Rightarrow> unit st" where
  "write_luminance p fused_img =
     (\<lambda>s. case assign_axis2_0 (cells s p) fused_img of
             Inl e \<Rightarrow> (Inl e, s)
           | Inr a \<Rightarrow> (Inr (), s\<lparr>cells := (cells s)(p := a)\<rparr>))"

definition clip01 :: "real ndarray \<Rightarrow> real ndarray" where
  \<comment> \<open>\<^verbatim>\<open>np.clip(fused_img, 0, 1)\<close>\<close>
  "clip01 a = \<lparr>shape = shape a, item = (\<lambda>ix. min (max (item a ix) 0) 1)\<rparr>"

text \<open>The second loop of \<^verbatim>\<open>fuse\<close> (lines 148-152), over the images and the addresses
  of their YCbCr arrays.  Subscripting the placeholder \<open>-1\<close> would raise TypeError.\<close>

fun reconstruct :: "extern \<Rightarrow> (nat \<times> nat option) list \<Rightarrow> real ndarray \<Rightarrow> (real ndarray) st" where
  "reconstruct ext [] fused_img = lift (Inr fused_img)"
| "reconstruct ext ((a, q) # rest) fused_img =
     sbind (read_cell a) (\<lambda>img.
     sbind (lift (is_gray img)) (\<lambda>gray.
       if \<not> gray then
         (case q of
            None \<Rightarrow> lift (Inl TypeError)
          | Some p \<Rightarrow>
              sbind (write_luminance p fused_img) (\<lambda>u.
              sbind (read_cell p) (\<lambda>ycc.
              sbind (lift (YCbCr_to_RGB ext ycc)) (\<lambda>rgb.
              reconstruct ext rest (clip01 rgb)))))
       else reconstruct ext rest fused_img))"

text \<open>
  \<^verbatim>\<open>(fused_img * 255).astype(np.uint8)\<close>: the fraction is dropped.  The conversion of
  a float outside the range of the target type is not defined by C; the model takes the
  value modulo 256, which is what numpy gives on the common platforms.
\<close>

definition to_uint8 :: "real \<Rightarrow> 8 word" where
  "to_uint8 x = word_of_int (if 0 \<le> x then \<lfloor>x\<rfloor> else \<lceil>x\<rceil>)"

definition scale_to_uint8 :: "real ndarray \<Rightarrow> 8 word ndarray" where
  "scale_to_uint8 a = \<lparr>shape = shape a, item = (\<lambda>ix. to_uint8 (item a ix * 255))\<rparr>"

text \<open>\<^verbatim>\<open>Fusion.fuse\<close> (lines 130-154), on the addresses of the input images, in two
  steps: \<open>fused_float\<close> is the body up to the \<^verbatim>\<open>return\<close> statement, its result the value
  of the variable \<^verbatim>\<open>fused_img\<close> there (lines 135-152); \<open>fuse\<close> is the whole method, which
  returns \<^verbatim>\<open>(fused_img * 255).astype(np.uint8)\<close> (line 154).\<close>

definition fused_float :: "extern \<Rightarrow> nat list \<Rightarrow> (real ndarray) st" where
  "fused_float ext input_images =
     sbind (normalise_all ext input_images) (\<lambda>(normalized_images, YCbCr_images).
     sbind (lift (tranfer_to_tensor normalized_images)) (\<lambda>images_to_tensors.
     sbind (lift (fuse_private (features ext) images_to_tensors)) (\<lambda>output.
     sbind (lift (take_axis2 output 0)) (\<lambda>fused_img.
       reconstruct ext (zip input_images YCbCr_images) fused_img))))"

definition fuse :: "extern \<Rightarrow> nat list \<Rightarrow> (8 word ndarray) st" where
  "fuse ext input_images =
     sbind (fused_float ext input_images) (\<lambda>fused_img.
       lift (Inr (scale_to_uint8 fused_img)))"



text \<open>
  What the theorems on the exceptions of \<^verbatim>\<open>fuse\<close> ask of the code outside the
  repository: a routine that raises only one kind of exception (torch its RuntimeError,
  OpenCV its \<^verbatim>\<open>cv2.error\<close>), and a layer that keeps the number of axes and the spatial
  size of its input, as the 3 x 3 convolutions with padding 1 and the ReLUs at the
  indices 0 to 3 of VGG19 do.
\<close>

definition raises_only :: "error \<Rightarrow> ('a \<Rightarrow> error + 'b) \<Rightarrow> bool" where
  "raises_only e f = (\<forall>x e'. f x = Inl e' \<longrightarrow> e' = e)"

definition keeps_size :: "layer \<Rightarrow> bool" where
  "keeps_size l =
     (\<forall>t t'. l t = Inr t' \<longrightarrow> ndim t' = ndim t \<and> drop 2 (shape t') = drop 2 (shape t))"

text \<open>The exceptions of Python and of the libraries, as opposed to the two names of the
  specification's taxonomy.\<close>

definition library_error :: "error \<Rightarrow> bool" where
  "library_error e = (e \<noteq> DimensionMismatchError \<and> e \<noteq> ChannelError)"

section \<open>Concrete inputs\<close>

text \<open>Small arrays on which the theorems below are evaluated.\<close>

definition img_2d :: "nat ndarray" where
  \<comment> \<open>a 2 x 2 image without a channel axis\<close>
  "img_2d = mk2 2 2 (\<lambda>i j. 10 * i + j)"

definition img_grey3 :: "nat ndarray" where
  \<comment> \<open>a 2 x 2 image with three equal channels\<close>
  "img_grey3 = mk3 2 2 3 (\<lambda>i j k. 10 * i + j)"

definition img_col3 :: "nat ndarray" where
  \<comment> \<open>a 2 x 2 image with three different channels\<close>
  "img_col3 = mk3 2 2 3 (\<lambda>i j k. 10 * i + j + k)"

definition img_two_channels :: "nat ndarray" where
  \<comment> \<open>a 1 x 1 image with two channels\<close>
  "img_two_channels = mk3 1 1 2 (\<lambda>i j k. 0)"

definition X22 :: "real ndarray" where
  \<comment> \<open>two points of the plane\<close>
  "X22 = mk2 2 2 (\<lambda>i j. if i = j then 1 else 0)"

definition Y21 :: "real ndarray" where
  \<comment> \<open>two points of the line\<close>
  "Y21 = mk2 2 1 (\<lambda>i j. real i)"

definition svd_fails :: "real ndarray \<Rightarrow> error + real ndarray \<times> real ndarray \<times> real ndarray" where
  \<comment> \<open>a decomposition routine that never converges\<close>
  "svd_fails A = Inl LinAlgError"

definition svd_conformal ::
  "real ndarray \<Rightarrow> error + real ndarray \<times> real ndarray \<times> real ndarray" where
  \<comment> \<open>a decomposition routine for the 2 x 2 matrices \<open>r * Q\<close> with \<open>Q\<close> orthogonal and
      \<open>r > 0\<close>: \<open>U\<close> is the identity, both singular values are \<open>r\<close>, \<open>Vt\<close> is \<open>Q\<close>;
      it gives up on every other matrix\<close>
  "svd_conformal A =
     (let a = at2 A 0 0; b = at2 A 0 1; c = at2 A 1 0; d = at2 A 1 1; r = sqrt (a\<^sup>2 + b\<^sup>2)
      in if shape A = [2, 2] \<and> a * c + b * d = 0 \<and> a\<^sup>2 + b\<^sup>2 = c\<^sup>2 + d\<^sup>2 \<and> r \<noteq> 0
         then Inr (mk2 2 2 (\<lambda>i j. if i = j then 1 else 0), mk1 2 (\<lambda>k. r),
                   mk2 2 2 (\<lambda>i j. at2 A i j / r))
         else Inl LinAlgError)"

definition cross4 :: "real ndarray" where
  \<comment> \<open>the four points (1,0), (-1,0), (0,1), (0,-1)\<close>
  "cross4 = mk2 4 2 (\<lambda>i j. if i = 0 \<and> j = 0 then 1 else if i = 1 \<and> j = 0 then - 1
                            else if i = 2 \<and> j = 1 then 1 else if i = 3 \<and> j = 1 then - 1 else 0)"

definition cross4_mirrored :: "real ndarray" where
  \<comment> \<open>the same points mirrored at the first axis\<close>
  "cross4_mirrored = mk2 4 2 (\<lambda>i j. if j = 1 then - at2 cross4 i j else at2 cross4 i j)"

definition relu_layer :: layer where
  \<comment> \<open>a ReLU layer\<close>
  "relu_layer t = Inr \<lparr>shape = shape t, item = (\<lambda>ix. max 0 (item t ix))\<rparr>"

definition relu_net :: "layer list" where
  \<comment> \<open>a stand-in for the pretrained network: five ReLU layers\<close>
  "relu_net = [relu_layer, relu_layer, relu_layer, relu_layer, relu_layer]"



definition ramp :: tensor where
  \<comment> \<open>the tensor of a 2 x 2 grey image with a gradient\<close>
  "ramp = mk4 1 3 2 2 (\<lambda>n k i j. real (i + j) / 2)"

definition flat :: tensor where
  \<comment> \<open>the tensor of a flat 2 x 2 grey image\<close>
  "flat = mk4 1 3 2 2 (\<lambda>n k i j. 1 / 2)"

definition cv_rgb2ycrcb :: "real ndarray \<Rightarrow> error + real ndarray" where
  \<comment> \<open>a stand-in for OpenCV's RGB to YCrCb conversion of float images, with the
      coefficients of its documentation\<close>
  "cv_rgb2ycrcb a =
     (if ndim a = 3 \<and> (shape a ! 2 = 3 \<or> shape a ! 2 = 4)
      then Inr (mk3 (shape a ! 0) (shape a ! 1) 3
             (\<lambda>i j c. let r = at3 a i j 0; g = at3 a i j 1; b = at3 a i j 2;
                            y = 299 / 1000 * r + 587 / 1000 * g + 114 / 1000 * b
                        in if c = 0 then y
                           else if c = 1 then (r - y) * (713 / 1000) + 1 / 2
                           else (b - y) * (564 / 1000) + 1 / 2))
      else Inl CvError)"

definition cv_ycrcb2rgb :: "real ndarray \<Rightarrow> error + real ndarray" where
  \<comment> \<open>a stand-in for the conversion back\<close>
  "cv_ycrcb2rgb a =
     (if ndim a = 3 \<and> shape a ! 2 = 3
      then Inr (mk3 (shape a ! 0) (shape a ! 1) 3
             (\<lambda>i j c. let y = at3 a i j 0; cr = at3 a i j 1; cb = at3 a i j 2
                        in if c = 0 then y + 1403 / 1000 * (cr - 1 / 2)
                           else if c = 1 then y - 714 / 1000 * (cr - 1 / 2) - 344 / 1000 * (cb - 1 / 2)
                           else y + 1773 / 1000 * (cb - 1 / 2)))
      else Inl CvError)"

definition ext_relu :: extern where
  \<comment> \<open>the stand-ins together\<close>
  "ext_relu = \<lparr>features = relu_net, RGB2YCrCb = cv_rgb2ycrcb, YCrCb2RGB = cv_ycrcb2rgb\<rparr>"

definition red_img :: "real ndarray" where
  \<comment> \<open>a red 2 x 2 colour image\<close>
  "red_img = mk3 2 2 3 (\<lambda>i j k. if k = 0 then 255 else 0)"

definition grey_img :: "real ndarray" where
  \<comment> \<open>a 2 x 2 grey image with the intensities 0, 51, 102, 153\<close>
  "grey_img = mk2 2 2 (\<lambda>i j. 51 * real (i + 2 * j))"

definition store2 :: store where
  \<comment> \<open>the red image at address 0, the grey image at address 1\<close>
  "store2 = \<lparr>cells = (\<lambda>a. if a = 0 then red_img else grey_img), fresh = 2\<rparr>"




definition two_channel_img :: "real ndarray" where
  \<comment> \<open>a 2 x 2 image with two channels\<close>
  "two_channel_img = mk3 2 2 2 (\<lambda>i j k. 128)"

definition wide_img :: "real ndarray" where
  \<comment> \<open>a grey image of 2 rows and 3 columns\<close>
  "wide_img = mk2 2 3 (\<lambda>i j. 40 * real (i + j))"

definition store_two_channels :: store where
  \<comment> \<open>the two-channel image at address 0\<close>
  "store_two_channels = \<lparr>cells = (\<lambda>a. two_channel_img), fresh = 1\<rparr>"

definition store_mismatch :: store where
  \<comment> \<open>the 2 x 2 grey image at address 0, the 2 x 3 one at address 1\<close>
  "store_mismatch = \<lparr>cells = (\<lambda>a. if a = 0 then grey_img else wide_img), fresh = 2\<rparr>"

definition quarter_turn :: "real ndarray" where
  \<comment> \<open>a rotation by a quarter turn\<close>
  "quarter_turn = mk2 2 2 (\<lambda>i j. if i = 0 \<and> j = 1 then 1 else if i = 1 \<and> j = 0 then - 1 else 0)"

definition shift11 :: "real ndarray" where
  \<comment> \<open>the translation by (1, 1)\<close>
  "shift11 = mk1 2 (\<lambda>j. 1)"

definition cross4_moved :: "real ndarray" where
  \<comment> \<open>the cross turned by a quarter, doubled in size and shifted by (1, 1): the points (1,3), (1,-1), (-1,1), (3,1)\<close>
  "cross4_moved = mk2 4 2 (\<lambda>i j. if i = 0 then (if j = 0 then 1 else 3)
                             else if i = 1 then (if j = 0 then 1 else - 1)
                             else if i = 2 then (if j = 0 then - 1 else 1)
                             else (if j = 0 then 3 else 1))"

definition identity2 :: "real ndarray" where
  \<comment> \<open>the identity matrix\<close>
  "identity2 = mk2 2 2 (\<lambda>i j. if i = j then 1 else 0)"

definition origin2 :: "real ndarray" where
  \<comment> \<open>the zero translation\<close>
  "origin2 = mk1 2 (\<lambda>j. 0)"

definition cross4_doubled :: "real ndarray" where
  \<comment> \<open>the cross doubled in size\<close>
  "cross4_doubled = mk2 4 2 (\<lambda>i j. 2 * at2 cross4 i j)"

section \<open>Basic facts\<close>

lemma ebind_Inl [simp]: "ebind (Inl e) f = Inl e"
  by (simp add: ebind_def)

lemma ebind_Inr [simp]: "ebind (Inr x) f = f x"
  by (simp add: ebind_def)

lemma shape_mk1 [simp]: "shape (mk1 n f) = [n]"
  by (simp add: mk1_def)

lemma shape_mk2 [simp]: "shape (mk2 r c f) = [r, c]"
  by (simp add: mk2_def)

lemma at1_mk1 [simp]: "at1 (mk1 n f) i = f i"
  by (simp add: mk1_def at1_def)

lemma at2_mk2 [simp]: "at2 (mk2 r c f) i j = f i j"
  by (simp add: mk2_def at2_def)

lemma nrows_mk2 [simp]: "nrows (mk2 r c f) = r"
  by (simp add: nrows_def)

lemma ncols_mk2 [simp]: "ncols (mk2 r c f) = c"
  by (simp add: ncols_def)

lemma nrows_mk1 [simp]: "nrows (mk1 n f) = n"
  by (simp add: nrows_def)

lemma list_all_indices2:
  "list_all P (indices [H, W]) = (\<forall>i<H. \<forall>j<W. P [i, j])"
  by (auto simp: list_all_iff)

section \<open>Grey-image detection\<close>

text \<open>
  Claim C8, as the code has it.  An array with fewer than three axes is grey.  For an
  array of shape \<open>(H, W, C)\<close>: with \<open>C = 1\<close> it is grey; with \<open>C = 0\<close> or \<open>C = 2\<close> the
  read of channel 0 or 2 raises IndexError; with \<open>C \<ge> 3\<close> the result is true exactly
  when channels 0, 1 and 2 agree at every pixel, and false otherwise.
\<close>

theorem is_gray_spec:
  "(ndim img < 3 \<longrightarrow> is_gray img = Inr True) \<and>
   (shape img = [H, W, C] \<longrightarrow>
      is_gray img =
        (if C = 1 then Inr True
         else if C < 3 then Inl IndexError
         else Inr (\<forall>i<H. \<forall>j<W. at3 img i j 0 = at3 img i j 1 \<and> at3 img i j 0 = at3 img i j 2)))"
proof (intro conjI impI)
  assume "ndim img < 3"
  then show "is_gray img = Inr True" by (simp add: is_gray_def ndim_def)
next
  assume s: "shape img = [H, W, C]"
  let ?P = "\<forall>i<H. \<forall>j<W. at3 img i j 0 = at3 img i j 1 \<and> at3 img i j 0 = at3 img i j 2"
  show "is_gray img = (if C = 1 then Inr True else if C < 3 then Inl IndexError else Inr ?P)"
  proof (cases "C = 1 \<or> C < 3")
    case True
    then show ?thesis using s
      by (auto simp add: is_gray_def take_axis2_def ndim_def)
  next
    case False
    have eq: "(all_equal \<lparr>shape = [H, W], item = \<lambda>ix. item img (take 2 ix @ 0 # drop 2 ix)\<rparr>
                 \<lparr>shape = [H, W], item = \<lambda>ix. item img (take 2 ix @ 1 # drop 2 ix)\<rparr> \<and>
               all_equal \<lparr>shape = [H, W], item = \<lambda>ix. item img (take 2 ix @ 0 # drop 2 ix)\<rparr>
                 \<lparr>shape = [H, W], item = \<lambda>ix. item img (take 2 ix @ 2 # drop 2 ix)\<rparr>) = ?P"
      by (simp add: all_equal_def list_all_indices2 at3_def del: indices.simps) blast
    from False s show ?thesis
      using eq by (auto simp add: is_gray_def take_axis2_def ndim_def)
  qed
qed

text \<open>The four cases of the theorem on concrete images.\<close>

theorem is_gray_spec_witness:
  "is_gray img_2d = Inr True \<and> is_gray img_grey3 = Inr True \<and>
   is_gray img_col3 = Inr False \<and> is_gray img_two_channels = Inl IndexError"
proof -
  have ex: "\<exists>i::nat. i < 2" by (rule exI[of _ 0]) simp
  show ?thesis
    using is_gray_spec[of img_2d 0 0 0] is_gray_spec[of img_grey3 2 2 3]
      is_gray_spec[of img_col3 2 2 3] is_gray_spec[of img_two_channels 1 1 2] ex
    by (simp add: img_2d_def img_grey3_def img_col3_def img_two_channels_def
        mk2_def mk3_def ndim_def at3_def)
qed

text \<open>
  Claim C8 as the specification words it fails on an image with two channels: the
  function returns neither true nor false there, it raises IndexError.
\<close>

theorem is_gray_two_channels_raises:
  "is_gray img_two_channels = Inl IndexError"
  by (simp add: is_gray_def img_two_channels_def mk3_def take_axis2_def ndim_def)

section \<open>Procrustes alignment\<close>

text \<open>
  Claim C7.  When \<open>Y\<close> has fewer columns than \<open>X\<close>, the code does not pad \<open>Y\<close>: the
  call \<^verbatim>\<open>np.zeros(n, m-my)\<close> raises TypeError and \<^verbatim>\<open>procrustes\<close> ends there,
  whatever the scaling and reflection arguments.
\<close>

theorem procrustes_fewer_columns_raises:
  assumes "ndim X = 2" and "ndim Y = 2" and "ncols Y < ncols X"
  shows "procrustes svd X Y scaling reflect = Inl TypeError"
  using assms by (simp add: procrustes_def Let_def zeros_dtype_int_def)

theorem procrustes_fewer_columns_raises_witness:
  "procrustes svd_fails X22 Y21 True Best = Inl TypeError"
  using procrustes_fewer_columns_raises[of X22 Y21 svd_fails True Best]
  by (simp add: X22_def Y21_def mk2_def ndim_def ncols_def)

lemma det_fn_2: "det_fn 2 f = f 0 0 * f 1 1 - f 0 1 * f 1 0"
  by (simp add: numeral_2_eq_2)

lemma sum_lessThan_2: "(\<Sum>k<2. g k) = g 0 + g (1::nat)" for g :: "nat \<Rightarrow> real"
  by (simp add: numeral_2_eq_2)

text \<open>
  Claim C6, for point sets of the plane (the specification's point sets are sequences of
  2-D coordinates).  Let \<open>U, s, Vt\<close> be the decomposition of \<open>A = X0\<^sup>T Y0\<close>, the product of
  the centred and normalised point sets.  The unconstrained solution (\<open>reflection='best'\<close>)
  has the rotation \<open>V U\<^sup>T\<close>, with the entries \<open>Vt[0,i] U[j,0] + Vt[1,i] U[j,1]\<close>.  When its
  determinant is negative, the call with \<open>reflection=False\<close> returns too, and what it
  returns is built from the last column of \<open>V\<close> negated and the last singular value
  negated: the rotation has the entries \<open>Vt[0,i] U[j,0] - Vt[1,i] U[j,1]\<close>, the trace that
  enters the scale and the disparity is \<open>s[0] - s[1]\<close>, and the determinant of the rotation
  is the opposite of the unconstrained one, hence positive.
\<close>

theorem procrustes_force_no_reflection:
  assumes X: "shape X = [n, 2]" and Y: "shape Y = [n, 2]"
      and svd: "svd_shaped svd"
      and best: "procrustes svd X Y scaling Best = Inr (d0, Z0, tf0)"
      and dt0: "det (rotation tf0) = Inr dt0" and neg: "dt0 < 0"
  defines "ssX \<equiv> sum_sq (sub_row X (mean0 X))" and "ssY \<equiv> sum_sq (sub_row Y (mean0 Y))"
  defines "X0 \<equiv> div_scalar (sub_row X (mean0 X)) (sqrt (sum_sq (sub_row X (mean0 X))))"
      and "Y0 \<equiv> div_scalar (sub_row Y (mean0 Y)) (sqrt (sum_sq (sub_row Y (mean0 Y))))"
  defines "A \<equiv> mk2 2 2 (\<lambda>i j. \<Sum>k<n. at2 X0 k i * at2 Y0 k j)"
  shows "\<exists>d Z tf U sv Vt.
           procrustes svd X Y scaling (Force False) = Inr (d, Z, tf) \<and>
           svd A = Inr (U, sv, Vt) \<and>
           (\<forall>i<2. \<forall>j<2. at2 (rotation tf0) i j =
                at2 Vt 0 i * at2 U j 0 + at2 Vt 1 i * at2 U j 1) \<and>
           shape (rotation tf) = [2, 2] \<and>
           (\<forall>i<2. \<forall>j<2. at2 (rotation tf) i j =
                at2 Vt 0 i * at2 U j 0 - at2 Vt 1 i * at2 U j 1) \<and>
           scale tf = (if scaling then (at1 sv 0 - at1 sv 1) * sqrt ssX / sqrt ssY else 1) \<and>
           d = (if scaling then 1 - (at1 sv 0 - at1 sv 1)\<^sup>2
                else 1 + ssY / ssX - 2 * (at1 sv 0 - at1 sv 1) * sqrt ssY / sqrt ssX) \<and>
           det (rotation tf) = Inr (- dt0)"
proof -
  have shp: "ndim X = 2" "ndim Y = 2" "nrows X = n" "ncols X = 2" "nrows Y = n" "ncols Y = 2"
    using X Y by (simp_all add: ndim_def nrows_def ncols_def)
  have dA: "dot (transpose2 X0) Y0 = Inr A"
    by (simp add: dot_def transpose2_def X0_def Y0_def div_scalar_def sub_row_def shp A_def)
  have nz: "\<not> (sqrt (sum_sq (sub_row X (mean0 X))) = 0 \<or> sqrt (sum_sq (sub_row Y (mean0 Y))) = 0)"
  proof
    assume "sqrt (sum_sq (sub_row X (mean0 X))) = 0 \<or> sqrt (sum_sq (sub_row Y (mean0 Y))) = 0"
    then have "procrustes svd X Y scaling Best = Inl LinAlgError"
      using dA unfolding procrustes_def Let_def X0_def Y0_def
      by (simp add: shp)
    with best show False by simp
  qed
  obtain U sv Vt where sv: "svd A = Inr (U, sv, Vt)"
  proof (cases "svd A")
    case (Inl e)
    then have "procrustes svd X Y scaling Best = Inl e"
      using dA nz unfolding procrustes_def Let_def X0_def Y0_def
      by (simp add: shp)
    with best show ?thesis by simp
  next
    case (Inr r)
    then show ?thesis using that by (cases r) auto
  qed
  have shA: "nrows A = 2" "ncols A = 2" by (simp_all add: A_def)
  from svd sv have shU: "shape U = [2, 2]" and shs: "shape sv = [2]" and shVt: "shape Vt = [2, 2]"
    unfolding svd_shaped_def using shA by (metis min.idem)+
  have shU': "nrows U = 2" "ncols U = 2" "nrows Vt = 2" "ncols Vt = 2" "nrows sv = 2"
    using shU shs shVt by (simp_all add: nrows_def ncols_def)
  define T0 where "T0 = mk2 2 2 (\<lambda>i j. \<Sum>k<2. at2 (transpose2 Vt) i k * at2 (transpose2 U) k j)"
  have dT0: "dot (transpose2 Vt) (transpose2 U) = Inr T0"
    by (simp add: dot_def transpose2_def shU' T0_def)
  have shY0: "nrows Y0 = n" "ncols Y0 = 2"
    by (simp_all add: Y0_def div_scalar_def shp sub_row_def)
  have okT: "\<exists>YT. dot Y0 T = Inr YT" "\<exists>v. dot_vec (mean0 Y) T = Inr v" if "shape T = [2, 2]" for T
  proof -
    from that have "nrows T = 2" "ncols T = 2" by (simp_all add: nrows_def ncols_def)
    then show "\<exists>YT. dot Y0 T = Inr YT" "\<exists>v. dot_vec (mean0 Y) T = Inr v"
      by (simp_all add: dot_def dot_vec_def shY0 mean0_def shp)
  qed
  obtain YT0 v0 where dYT0: "dot Y0 T0 = Inr YT0" and dv0: "dot_vec (mean0 Y) T0 = Inr v0"
    using okT[of T0] by (auto simp: T0_def)
  have rot0: "rotation tf0 = T0"
    using best dA nz sv dT0 dYT0 dv0
    unfolding procrustes_def Let_def X0_def[symmetric] Y0_def[symmetric]
    by (auto simp add: shp)
  have dt0': "dt0 = det_fn 2 (at2 T0)"
    using dt0 by (simp add: rot0 det_def T0_def)
  define V' where "V' = mk2 2 2 (\<lambda>i j. if j = 1 then - at2 (transpose2 Vt) i j else at2 (transpose2 Vt) i j)"
  define s' where "s' = mk1 2 (\<lambda>j. if j = 1 then - at1 sv j else at1 sv j)"
  define T' where "T' = mk2 2 2 (\<lambda>i j. \<Sum>k<2. at2 V' i k * at2 (transpose2 U) k j)"
  have nV: "neg_last_col (transpose2 Vt) = Inr V'"
    by (simp add: neg_last_col_def transpose2_def shU' V'_def cong: if_cong)
  have ns: "neg_last sv = Inr s'"
    by (simp add: neg_last_def shU' s'_def cong: if_cong)
  have dT': "dot V' (transpose2 U) = Inr T'"
    by (simp add: dot_def V'_def transpose2_def shU' T'_def)
  have detT0: "det T0 = Inr dt0"
    using dt0 rot0 by simp
  have detT': "det T' = Inr (- dt0)"
    unfolding dt0' 
    by (simp add: det_def T'_def T0_def V'_def det_fn_2 sum_lessThan_2 transpose2_def algebra_simps)
  obtain YT1 v1 where dYT1: "dot Y0 T' = Inr YT1" and dv1: "dot_vec (mean0 Y) T' = Inr v1"
    using okT[of T'] by (auto simp: T'_def)
  have vs': "vec_sum s' = at1 sv 0 - at1 sv 1"
    by (simp add: vec_sum_def s'_def nrows_def mk1_def at1_def sum_lessThan_2)
  obtain d Z tf where r: "procrustes svd X Y scaling (Force False) = Inr (d, Z, tf)"
      and rt: "rotation tf = T'"
      and sc: "scale tf = (if scaling then vec_sum s' * sqrt ssX / sqrt ssY else 1)"
      and dd: "d = (if scaling then 1 - (vec_sum s')\<^sup>2
                else 1 + ssY / ssX - 2 * vec_sum s' * sqrt ssY / sqrt ssX)"
    using dA nz sv dT0 detT0 neg nV ns dT' dYT1 dv1
    unfolding procrustes_def Let_def X0_def[symmetric] Y0_def[symmetric] ssX_def ssY_def
    by (auto simp add: shp)
  have e0: "at2 T0 i j = at2 Vt 0 i * at2 U j 0 + at2 Vt 1 i * at2 U j 1" for i j
    by (simp add: T0_def transpose2_def sum_lessThan_2)
  have e1: "at2 T' i j = at2 Vt 0 i * at2 U j 0 - at2 Vt 1 i * at2 U j 1" for i j
    by (simp add: T'_def V'_def transpose2_def sum_lessThan_2)
  have shT: "shape T' = [2, 2]" by (simp add: T'_def)
  show ?thesis
    using r sv detT' shT sc dd
    unfolding vs' rt[symmetric] rot0[symmetric] e0[unfolded rot0[symmetric]] 
    by (intro exI[of _ d] exI[of _ Z] exI[of _ tf] exI[of _ U] exI[of _ sv] exI[of _ Vt])
       (simp add: e0[unfolded rot0[symmetric]] e1[unfolded rt[symmetric]])
qed

lemma svd_conformal_shaped: "svd_shaped svd_conformal"
  by (auto simp add: svd_shaped_def svd_conformal_def Let_def nrows_def ncols_def
      split: if_splits)

lemma procrustes_best_cross4_mirrored:
  "\<exists>d0 Z0 tf0. procrustes svd_conformal cross4 cross4_mirrored True Best = Inr (d0, Z0, tf0) \<and>
     det (rotation tf0) = Inr (- 1)"
  by (simp add: procrustes_def Let_def ndim_def cross4_def cross4_mirrored_def mean0_def
      sub_row_def sum_sq_def div_scalar_def transpose2_def dot_def eval_nat_numeral
      svd_conformal_def dot_vec_def det_def cong: if_cong)

lemma cross_matrix_cross4_mirrored:
  defines "X0 \<equiv> div_scalar (sub_row cross4 (mean0 cross4)) (sqrt (sum_sq (sub_row cross4 (mean0 cross4))))"
      and "Y0 \<equiv> div_scalar (sub_row cross4_mirrored (mean0 cross4_mirrored))
                   (sqrt (sum_sq (sub_row cross4_mirrored (mean0 cross4_mirrored))))"
  defines "A \<equiv> mk2 2 2 (\<lambda>i j. \<Sum>k<4. at2 X0 k i * at2 Y0 k j)"
  shows "svd_conformal A =
           Inr (mk2 2 2 (\<lambda>i j. if i = j then 1 else 0), mk1 2 (\<lambda>k. 1 / 2),
                mk2 2 2 (\<lambda>i j. at2 A i j / (1 / 2)))"
    and "at2 A 0 0 = 1 / 2" "at2 A 0 1 = 0" "at2 A 1 0 = 0" "at2 A 1 1 = - 1 / 2"
    and "sum_sq (sub_row cross4 (mean0 cross4)) = 4"
    and "sum_sq (sub_row cross4_mirrored (mean0 cross4_mirrored)) = 4"
proof -
  show sx: "sum_sq (sub_row cross4 (mean0 cross4)) = 4"
    by (simp add: cross4_def mean0_def sub_row_def sum_sq_def eval_nat_numeral)
  show sy: "sum_sq (sub_row cross4_mirrored (mean0 cross4_mirrored)) = 4"
    by (simp add: cross4_def cross4_mirrored_def mean0_def sub_row_def sum_sq_def eval_nat_numeral)
  show e: "at2 A 0 0 = 1 / 2" "at2 A 0 1 = 0" "at2 A 1 0 = 0" "at2 A 1 1 = - 1 / 2"
    unfolding A_def X0_def Y0_def sx sy
    by (simp_all add: cross4_def cross4_mirrored_def mean0_def sub_row_def div_scalar_def
        eval_nat_numeral)
  have q: "sqrt ((1 / 2)\<^sup>2 + 0\<^sup>2) = (1 / 2 :: real)"
    by (simp add: real_sqrt_divide power_divide)
  show "svd_conformal A =
           Inr (mk2 2 2 (\<lambda>i j. if i = j then 1 else 0), mk1 2 (\<lambda>k. 1 / 2),
                mk2 2 2 (\<lambda>i j. at2 A i j / (1 / 2)))"
    unfolding svd_conformal_def Let_def e q
    by (simp add: A_def)
qed

text \<open>Aligning a cross of four points with its mirror image: the unconstrained rotation
  is the mirror map, of determinant \<open>-1\<close>; the forced one is the identity, of determinant
  \<open>1\<close>, and since the two singular values are equal the forced trace is 0, so the scale
  is 0 and the disparity 1.\<close>

theorem procrustes_force_no_reflection_witness:
  "\<exists>d Z tf. procrustes svd_conformal cross4 cross4_mirrored True (Force False) = Inr (d, Z, tf) \<and>
     det (rotation tf) = Inr 1 \<and> m2 (rotation tf) = (1, 0, 0, 1) \<and> scale tf = 0 \<and> d = 1"
proof -
  obtain d0 Z0 tf0 where
    b: "procrustes svd_conformal cross4 cross4_mirrored True Best = Inr (d0, Z0, tf0)" and
    d: "det (rotation tf0) = Inr (- 1)"
    using procrustes_best_cross4_mirrored by blast
  have sx: "shape cross4 = [4, 2]" and sy: "shape cross4_mirrored = [4, 2]"
    by (simp_all add: cross4_def cross4_mirrored_def)
  note C = cross_matrix_cross4_mirrored
  let ?ssX = "sum_sq (sub_row cross4 (mean0 cross4))"
  let ?ssY = "sum_sq (sub_row cross4_mirrored (mean0 cross4_mirrored))"
  let ?X0 = "div_scalar (sub_row cross4 (mean0 cross4)) (sqrt ?ssX)"
  let ?Y0 = "div_scalar (sub_row cross4_mirrored (mean0 cross4_mirrored)) (sqrt ?ssY)"
  let ?A = "mk2 2 2 (\<lambda>i j. \<Sum>k<4. at2 ?X0 k i * at2 ?Y0 k j)"
  have ng: "(- 1 :: real) < 0" by simp
  from procrustes_force_no_reflection[OF sx sy svd_conformal_shaped b d ng]
  obtain d Z tf U sv Vt where
    r: "procrustes svd_conformal cross4 cross4_mirrored True (Force False) = Inr (d, Z, tf)" and
    svf: "svd_conformal ?A = Inr (U, sv, Vt)" and
    rot: "\<forall>i<2. \<forall>j<2. at2 (rotation tf) i j = at2 Vt 0 i * at2 U j 0 - at2 Vt 1 i * at2 U j 1" and
    sc: "scale tf = (if True then (at1 sv 0 - at1 sv 1) * sqrt ?ssX / sqrt ?ssY else 1)" and
    dd: "d = (if True then 1 - (at1 sv 0 - at1 sv 1)\<^sup>2
              else 1 + ?ssY / ?ssX - 2 * (at1 sv 0 - at1 sv 1) * sqrt ?ssY / sqrt ?ssX)" and
    dt: "det (rotation tf) = Inr (- (- 1))"
    by blast
  define A where "A = ?A"
  from svf have u: "U = mk2 2 2 (\<lambda>i j. if i = j then 1 else 0)"
    and s: "sv = mk1 2 (\<lambda>k. 1 / 2)"
    and v: "Vt = mk2 2 2 (\<lambda>i j. at2 A i j / (1 / 2))"
    unfolding C(1) A_def by simp_all
  have e: "at2 A 0 0 = 1 / 2" "at2 A 0 1 = 0" "at2 A 1 0 = 0" "at2 A 1 1 = - 1 / 2"
    unfolding A_def by (rule C)+
  have Vt: "at2 Vt 0 0 = 1" "at2 Vt 0 1 = 0" "at2 Vt 1 0 = 0" "at2 Vt 1 1 = - 1"
    unfolding v at2_mk2 e by simp_all
  have "m2 (rotation tf) = (1, 0, 0, 1)"
    using rot Vt by (simp add: m2_def u)
  moreover have "scale tf = 0" "d = 1" using sc dd by (simp_all add: s)
  ultimately show ?thesis using r dt by simp
qed

section \<open>The weight maps\<close>

lemma shape_mk3 [simp]: "shape (mk3 a b c f) = [a, b, c]" by (simp add: mk3_def)
lemma shape_mk4 [simp]: "shape (mk4 a b c d f) = [a, b, c, d]" by (simp add: mk4_def)
lemma at3_mk3 [simp]: "at3 (mk3 a b c f) i j k = f i j k" by (simp add: mk3_def at3_def)
lemma at4_mk4 [simp]: "at4 (mk4 a b c d f) n k i j = f n k i j" by (simp add: mk4_def at4_def)

lemma ebind_eq_Inr: "ebind m f = Inr y \<longleftrightarrow> (\<exists>x. m = Inr x \<and> f x = Inr y)"
  by (cases m) (simp_all add: ebind_def)

lemma emap_Inr: "emap f xs = Inr ys \<Longrightarrow> list_all2 (\<lambda>x y. f x = Inr y) xs ys"
  by (induction xs arbitrary: ys) (auto simp: ebind_eq_Inr)

lemma sum_dim1_Inr:
  assumes "sum_dim1 t = Inr s"
  shows "ncols s = 1" "2 \<le> ndim s" "shape s = (shape t)[1 := 1]"
    "item s ix = (\<Sum>k<ncols t. item t (ix[1 := k]))"
  using assms by (auto simp: sum_dim1_def ncols_def ndim_def split: if_splits)



lemma softmax_Inr:
  assumes "softmax f = Inr w"
  shows "shape w = shape f"
    "item w ix = exp (item f ix) / (\<Sum>k<ncols f. exp (item f (ix[1 := k])))"
proof -
  from assms have nd: "\<not> ndim (exp_tensor f) < 2"
    by (auto simp: softmax_def Let_def sum_dim1_def split: if_splits)
  from assms nd have w: "w = \<lparr>shape = shape (exp_tensor f),
      item = (\<lambda>ix. item (exp_tensor f) ix /
         (\<Sum>k<ncols (exp_tensor f). item (exp_tensor f) ((ix[1 := 0])[1 := k])))\<rparr>"
    by (simp add: softmax_def Let_def sum_dim1_def)
  show "shape w = shape f" by (simp add: w exp_tensor_def)
  show "item w ix = exp (item f ix) / (\<Sum>k<ncols f. exp (item f (ix[1 := k])))"
    by (simp add: w exp_tensor_def ncols_def)
qed

lemma softmax_sum:
  assumes "softmax f = Inr w" "0 < ncols f"
  shows "(\<Sum>k<ncols f. item w (ix[1 := k])) = 1"
proof -
  let ?D = "\<Sum>k<ncols f. exp (item f (ix[1 := k]))"
  have pos: "0 < ?D" using assms(2) by (intro sum_pos) auto
  have "(\<Sum>k<ncols f. item w (ix[1 := k])) = (\<Sum>k<ncols f. exp (item f (ix[1 := k])) / ?D)"
    by (simp add: softmax_Inr(2)[OF assms(1)])
  also have "\<dots> = ?D / ?D" by (rule sum_divide_distrib[symmetric])
  also have "\<dots> = 1" using pos by simp
  finally show ?thesis .
qed


lemma list_all2_rhs_elem:
  "list_all2 P xs ys \<Longrightarrow> y \<in> set ys \<Longrightarrow> \<exists>x\<in>set xs. P x y"
  by (induction rule: list_all2_induct) auto







lemma f32_underflow_pos: "0 < f32_underflow"
  by (simp add: f32_underflow_def)

lemma to_f32_Num: "f32_underflow < r \<Longrightarrow> r < f32_overflow \<Longrightarrow> to_f32 r = Num r"
  by (simp add: to_f32_def)

lemma foldl_add_f32:
  assumes "\<forall>x\<in>set xs. f32_underflow < x" "a = 0 \<or> f32_underflow < a"
    "a + sum_list xs < f32_overflow"
  shows "foldl add_f32 (Num a) (map Num xs) = Num (a + sum_list xs)"
  using assms
proof (induction xs arbitrary: a)
  case Nil
  then show ?case by simp
next
  case (Cons x xs)
  have x: "f32_underflow < x" using Cons.prems(1) by simp
  have a: "0 \<le> a" using Cons.prems(2) f32_underflow_pos by auto
  have r: "0 \<le> sum_list xs"
    using Cons.prems(1) f32_underflow_pos by (intro sum_list_nonneg) force
  have lo: "f32_underflow < a + x" using x a by simp
  have hi: "a + x < f32_overflow" using Cons.prems(3) r by simp
  have "foldl add_f32 (Num a) (map Num (x # xs)) = foldl add_f32 (Num (a + x)) (map Num xs)"
    by (simp add: to_f32_Num[OF lo hi])
  also have "\<dots> = Num (a + x + sum_list xs)"
    using Cons.prems(1,3) lo by (intro Cons.IH) (simp_all add: add.assoc)
  finally show ?case by (simp add: add.assoc)
qed



lemma softmax_f32_Inr:
  assumes "softmax_f32 f = Inr w"
  shows "shape w = shape f"
    "item w ix = div_f32 (to_f32 (exp (item f ix)))
       (foldl add_f32 (Num 0) (map (\<lambda>k. to_f32 (exp (item f (ix[1 := k])))) [0..<ncols f]))"
proof -
  from assms have nd: "\<not> ndim (exp_f32 f) < 2"
    by (auto simp: softmax_f32_def Let_def sum_dim1_f32_def split: if_splits)
  from assms nd have w: "w = \<lparr>shape = shape (exp_f32 f),
      item = (\<lambda>ix. div_f32 (item (exp_f32 f) ix)
         (foldl add_f32 (Num 0)
            (map (\<lambda>k. item (exp_f32 f) ((ix[1 := 0])[1 := k])) [0..<ncols (exp_f32 f)])))\<rparr>"
    by (simp add: softmax_f32_def Let_def sum_dim1_f32_def)
  show "shape w = shape f" by (simp add: w exp_f32_def)
  show "item w ix = div_f32 (to_f32 (exp (item f ix)))
       (foldl add_f32 (Num 0) (map (\<lambda>k. to_f32 (exp (item f (ix[1 := k])))) [0..<ncols f]))"
    by (simp add: w exp_f32_def ncols_def)
qed


lemma softmax_pixel:
  fixes y :: "nat \<Rightarrow> real"
  assumes N: "0 < N"
      and rg: "\<forall>k<N. f32_underflow < exp (y k) \<and> real N * exp (y k) < f32_overflow"
      and k: "k < N"
  shows "div_f32 (to_f32 (exp (y k)))
           (foldl add_f32 (Num 0) (map (\<lambda>k. to_f32 (exp (y k))) [0..<N])) =
         Num (exp (y k) / (\<Sum>k<N. exp (y k)))"
proof -
  have Npos: "0 < real N" using N by simp
  have lt: "exp (y q) < f32_overflow / real N" if "q < N" for q
    using rg that Npos by (simp add: field_simps)
  have le1: "f32_overflow / real N \<le> f32_overflow"
  proof -
    have n1: "1 \<le> real N" using N by simp
    have o0: "0 \<le> f32_overflow" by (simp add: f32_overflow_def)
    have "f32_overflow * 1 \<le> f32_overflow * real N"
      using n1 o0 by (rule mult_left_mono)
    then show ?thesis using Npos by (simp add: field_simps)
  qed
  have num: "to_f32 (exp (y q)) = Num (exp (y q))" if "q < N" for q
    using rg that lt[OF that] le1 by (intro to_f32_Num) auto
  have m: "map (\<lambda>k. to_f32 (exp (y k))) [0..<N] = map Num (map (\<lambda>k. exp (y k)) [0..<N])"
    using num by simp
  have sl: "sum_list (map (\<lambda>k. exp (y k)) [0..<N]) = (\<Sum>k<N. exp (y k))"
    by (simp add: interv_sum_list_conv_sum_set_nat atLeast0LessThan)
  have tot: "(\<Sum>k<N. exp (y k)) < f32_overflow"
  proof -
    have "(\<Sum>k<N. exp (y k)) < (\<Sum>k<N. f32_overflow / real N)"
      using N lt by (intro sum_strict_mono) auto
    also have "\<dots> = f32_overflow" using N by simp
    finally show ?thesis .
  qed
  have pos: "0 < (\<Sum>k<N. exp (y k))" using N by (intro sum_pos) auto
  have "foldl add_f32 (Num 0) (map (\<lambda>k. to_f32 (exp (y k))) [0..<N]) =
        Num (0 + sum_list (map (\<lambda>k. exp (y k)) [0..<N]))"
    unfolding m using rg tot by (intro foldl_add_f32) (auto simp: sl)
  then show ?thesis using pos by (simp add: sl num[OF k])
qed

text \<open>Where the exponentials stay in range, the weights over the reals (\<open>softmax\<close>) are
  those of float32.\<close>

lemma softmax_f32_agrees:
  assumes r: "softmax f = Inr w" and r32: "softmax_f32 f = Inr w32"
      and k: "k < ncols f" and ix: "ix ! 1 = k" "1 < length ix"
      and rg: "\<forall>k<ncols f. f32_underflow < exp (item f (ix[1 := k])) \<and>
                 real (ncols f) * exp (item f (ix[1 := k])) < f32_overflow"
  shows "item w32 ix = Num (item w ix)"
proof -
  have N: "0 < ncols f" using k by simp
  have id: "ix[1 := k] = ix" using ix by (metis list_update_id)
  have "item w32 ix = div_f32 (to_f32 (exp (item f (ix[1 := k]))))
       (foldl add_f32 (Num 0) (map (\<lambda>k. to_f32 (exp (item f (ix[1 := k])))) [0..<ncols f]))"
    by (simp only: softmax_f32_Inr(2)[OF r32] id)
  also have "\<dots> = Num (exp (item f (ix[1 := k])) / (\<Sum>k<ncols f. exp (item f (ix[1 := k]))))"
    by (rule softmax_pixel[OF N rg k])
  also have "\<dots> = Num (item w ix)"
    by (simp only: softmax_Inr(2)[OF r] id)
  finally show ?thesis .
qed










section \<open>One tap depth\<close>

lemma forward_loop_late:
  "3 < idx \<Longrightarrow> forward_loop ls idx x fms = Inr out \<Longrightarrow> out = fms"
proof (induction ls arbitrary: idx x fms)
  case Nil
  then show ?case by simp
next
  case (Cons l ls)
  from Cons.prems obtain x' where "forward_loop ls (Suc idx) x' fms = Inr out"
    by (auto simp: ebind_eq_Inr)
  moreover have "3 < Suc idx" using Cons.prems(1) by simp
  ultimately show ?case by (rule Cons.IH[rotated])
qed

lemma forward_loop_Inr:
  "idx \<le> 3 \<Longrightarrow> forward_loop ls idx x fms = Inr out \<Longrightarrow>
     (if 3 < idx + length ls
      then \<exists>a. run_layers (take (4 - idx) ls) x = Inr a \<and> out = fms @ [a]
      else out = fms)"
proof (induction ls arbitrary: idx x fms)
  case Nil
  then show ?case by simp
next
  case (Cons l ls)
  from Cons.prems(2) obtain x' where l: "l x = Inr x'" and
    rest: "forward_loop ls (Suc idx) x' (if idx = 3 then fms @ [x'] else fms) = Inr out"
    by (auto simp: ebind_eq_Inr)
  show ?case
  proof (cases "idx = 3")
    case True
    with rest have "out = fms @ [x']" using forward_loop_late[of "Suc idx"] by simp
    with True l show ?thesis by simp
  next
    case False
    with Cons.prems(1) have le: "Suc idx \<le> 3" by simp
    from False rest have r: "forward_loop ls (Suc idx) x' fms = Inr out" by simp
    have t: "take (4 - idx) (l # ls) = l # take (4 - Suc idx) ls"
    proof -
      have "4 - idx = Suc (4 - Suc idx)" using le by simp
      then show ?thesis by simp
    qed
    show ?thesis using Cons.IH[OF le r] l by (simp only: t) (auto simp: ebind_eq_Inr)
  qed
qed

lemma forward_Inr:
  assumes "forward layers x = Inr fms"
  shows "if 3 < length layers then \<exists>a. run_layers (take 4 layers) x = Inr a \<and> fms = [a]
         else fms = []"
  using forward_loop_Inr[of 0 layers x "[]" fms] assms
  by (auto simp add: forward_def split: if_splits)

lemma emap_length: "emap f xs = Inr ys \<Longrightarrow> length ys = length xs"
  using emap_Inr list_all2_lengthD by fastforce

lemma sum_maps_of_length:
  assumes "sum_maps_of layers t = Inr sms"
  shows "length sms = (if 3 < length layers then 1 else 0)"
proof -
  from assms obtain fms where f: "forward layers t = Inr fms" and e: "emap sum_dim1 fms = Inr sms"
    by (auto simp: sum_maps_of_def ebind_eq_Inr)
  from forward_Inr[OF f] emap_length[OF e] show ?thesis by (auto split: if_splits)
qed

lemma min_len_const: "xss \<noteq> [] \<Longrightarrow> \<forall>xs\<in>set xss. length xs = n \<Longrightarrow> min_len xss = n"
  by (induction xss rule: min_len.induct) auto

lemma depth_loop_single:
  "depth_loop ts [sm] None = ebind (current_fusion_of ts sm) (\<lambda>cf. Inr (Some cf))"
  by simp

lemma fuse_private_Inr:
  assumes "fuse_private layers ts = Inr output"
  shows "\<exists>sms cf. emap (sum_maps_of layers) ts = Inr sms \<and> (\<forall>s\<in>set sms. length s = 1) \<and>
           zip_star sms = [map hd sms] \<and> ts \<noteq> [] \<and> 3 < length layers \<and>
           current_fusion_of ts (map hd sms) = Inr cf \<and> output = output_layout cf"
proof -
  from assms obtain sms mf where
    e: "emap (sum_maps_of layers) ts = Inr sms" and
    d: "depth_loop ts (zip_star sms) None = Inr (Some mf)" and o: "output = output_layout mf"
    by (auto simp: fuse_private_def ebind_eq_Inr split: option.splits)
  have l2: "list_all2 (\<lambda>t s. sum_maps_of layers t = Inr s) ts sms" using emap_Inr[OF e] .
  have len: "\<forall>s\<in>set sms. length s = (if 3 < length layers then 1 else 0)"
    using list_all2_rhs_elem[OF l2] sum_maps_of_length by blast
  have ne: "sms \<noteq> []"
  proof
    assume "sms = []"
    then have "zip_star sms = []" by (simp add: zip_star_def)
    with d show False by simp
  qed
  have big: "3 < length layers"
  proof (rule ccontr)
    assume "\<not> 3 < length layers"
    with len have "\<forall>s\<in>set sms. length s = 0" by simp
    from min_len_const[OF ne this] have "zip_star sms = []" by (simp add: zip_star_def)
    with d show False by simp
  qed
  with len have one: "\<forall>s\<in>set sms. length s = 1" by simp
  from min_len_const[OF ne one] have z: "zip_star sms = [map (\<lambda>xs. xs ! 0) sms]"
    by (simp add: zip_star_def)
  have "map (\<lambda>xs. xs ! 0) sms = map hd sms"
  proof (intro map_cong refl)
    fix xs assume "xs \<in> set sms"
    with one have "length xs = 1" by blast
    then have "xs \<noteq> []" by auto
    then show "xs ! 0 = hd xs" by (simp add: hd_conv_nth)
  qed
  with z have z': "zip_star sms = [map hd sms]" by simp
  from d obtain cf where cf: "current_fusion_of ts (map hd sms) = Inr cf" and "mf = cf"
    by (auto simp: z' ebind_eq_Inr)
  have "ts \<noteq> []" using ne emap_length[OF e] by auto
  with e one z' big cf o \<open>mf = cf\<close> show ?thesis by blast
qed

text \<open>
  Claim C9.  torchvision's VGG19 has 37 feature layers; all that the proof needs is that
  there are more than three.  Then \<^verbatim>\<open>forward\<close> returns exactly one feature map, the
  activation after the layers 0 to 3; and in every call of \<^verbatim>\<open>_fuse\<close> that returns,
  every image has one saliency map, the loop over the depths runs once, \<open>max_fusion\<close> is
  the weighted sum of that one depth (no \<^verbatim>\<open>torch.max\<close> is taken), and the result is
  that weighted sum in the output layout.
\<close>

theorem fuse_single_depth:
  assumes big: "3 < length layers"
  shows "(\<forall>x fms. forward layers x = Inr fms \<longrightarrow>
            (\<exists>a. run_layers (take 4 layers) x = Inr a \<and> fms = [a])) \<and>
         (\<forall>ts output. fuse_private layers ts = Inr output \<longrightarrow>
            (\<exists>sms cf. emap (sum_maps_of layers) ts = Inr sms \<and>
               (\<forall>s\<in>set sms. length s = 1) \<and> zip_star sms = [map hd sms] \<and>
               depth_loop ts (zip_star sms) None = Inr (Some cf) \<and>
               current_fusion_of ts (map hd sms) = Inr cf \<and>
               output = output_layout cf))"
proof (intro conjI allI impI)
  fix x fms assume "forward layers x = Inr fms"
  from forward_Inr[OF this] big show "\<exists>a. run_layers (take 4 layers) x = Inr a \<and> fms = [a]"
    by simp
next
  fix ts out assume "fuse_private layers ts = Inr out"
  from fuse_private_Inr[OF this] obtain sms cf where
    h: "emap (sum_maps_of layers) ts = Inr sms" "\<forall>s\<in>set sms. length s = 1"
       "zip_star sms = [map hd sms]" "current_fusion_of ts (map hd sms) = Inr cf"
       "out = output_layout cf" by blast
  have "depth_loop ts (zip_star sms) None = Inr (Some cf)"
    using h(3,4) by simp
  with h show "\<exists>sms cf. emap (sum_maps_of layers) ts = Inr sms \<and>
               (\<forall>s\<in>set sms. length s = 1) \<and> zip_star sms = [map hd sms] \<and>
               depth_loop ts (zip_star sms) None = Inr (Some cf) \<and>
               current_fusion_of ts (map hd sms) = Inr cf \<and>
               out = output_layout cf" by blast
qed

lemma fuse_private_relu_net:
  "\<exists>out. fuse_private relu_net [ramp, flat] = Inr out"
  by (simp add: fuse_private_def sum_maps_of_def forward_def relu_net_def relu_layer_def
      ramp_def flat_def sum_dim1_def ndim_def weight_map_def cat_dim1_def interpolate_def
      softmax_def Let_def exp_tensor_def mk4_def zip_star_def current_fusion_of_def
      select_dim1_def mul_def iadd_def bshape_def zeros_def nrows_def ncols_def)

lemma forward_relu_net:
  "\<exists>fms. forward relu_net ramp = Inr fms"
  by (simp add: forward_def relu_net_def relu_layer_def)

text \<open>The network of five ReLU layers on the ramp and the flat image.\<close>

theorem fuse_single_depth_witness:
  "3 < length relu_net \<and>
   (\<exists>a. run_layers (take 4 relu_net) ramp = Inr a \<and> forward relu_net ramp = Inr [a]) \<and>
   (\<exists>sms cf out. fuse_private relu_net [ramp, flat] = Inr out \<and>
      emap (sum_maps_of relu_net) [ramp, flat] = Inr sms \<and>
      zip_star sms = [map hd sms] \<and>
      depth_loop [ramp, flat] (zip_star sms) None = Inr (Some cf) \<and>
      out = output_layout cf)"
proof -
  have big: "3 < length relu_net" by (simp add: relu_net_def)
  obtain fms where f: "forward relu_net ramp = Inr fms" using forward_relu_net by blast
  obtain out where o: "fuse_private relu_net [ramp, flat] = Inr out"
    using fuse_private_relu_net by blast
  from fuse_single_depth[OF big] f o big show ?thesis by blast
qed

section \<open>The weighted sum\<close>
















section \<open>The store\<close>

lemma sbind_Inl: "m s = (Inl e, s1) \<Longrightarrow> sbind m f s = (Inl e, s1)"
  by (simp add: sbind_def)

lemma sbind_Inr: "m s = (Inr x, s1) \<Longrightarrow> sbind m f s = f x s1"
  by (simp add: sbind_def)

lemma sbind_lift [simp]: "sbind (lift r) f s = (case r of Inl e \<Rightarrow> (Inl e, s) | Inr x \<Rightarrow> f x s)"
  by (simp add: sbind_def lift_def split: sum.splits)

lemma sbind_read_cell [simp]: "sbind (read_cell a) f s = f (cells s a) s"
  by (simp add: sbind_def read_cell_def)

lemma sbind_alloc [simp]:
  "sbind (alloc x) f s = f (fresh s) (s\<lparr>cells := (cells s)(fresh s := x), fresh := Suc (fresh s)\<rparr>)"
  by (simp add: sbind_def alloc_def)

lemma lift_apply [simp]: "lift r s = (r, s)"
  by (simp add: lift_def)

lemma sbind_cases:
  assumes "sbind m f s = (r, s')"
  obtains (fail) e where "m s = (Inl e, s')" "r = Inl e"
        | (ok) x s1 where "m s = (Inr x, s1)" "f x s1 = (r, s')"
  using assms by (auto simp: sbind_def split: prod.splits sum.splits)

text \<open>What the first loop leaves alone, and where its new arrays are.\<close>

lemma normalise_all_frame:
  "normalise_all ext as s = (r, s') \<Longrightarrow>
     fresh s \<le> fresh s' \<and> (\<forall>a<fresh s. cells s' a = cells s a) \<and>
     (\<forall>ns ps. r = Inr (ns, ps) \<longrightarrow>
        length ps = length as \<and> length ns = length as \<and>
        (\<forall>p. Some p \<in> set ps \<longrightarrow> fresh s \<le> p \<and> p < fresh s'))"
proof (induction as arbitrary: s r s')
  case Nil
  then show ?case by auto
next
  case (Cons a as)
  show ?case
  proof (cases "is_gray (cells s a)")
    case (Inl e)
    with Cons.prems show ?thesis by auto
  next
    case (Inr g)
    show ?thesis
    proof (cases g)
      case True
      with Inr Cons.prems have
        st: "sbind (normalise_all ext as) (\<lambda>(ns, ps). lift (Inr (div255 (cells s a) # ns, None # ps))) s = (r, s')"
        by simp
      from st show ?thesis
      proof (cases rule: sbind_cases)
        case (fail e)
        from Cons.IH[OF fail(1)] fail(2) show ?thesis by auto
      next
        case (ok x s1)
        obtain ns ps where x: "x = (ns, ps)" by (cases x)
        from ok(2) x have r: "r = Inr (div255 (cells s a) # ns, None # ps)" and "s1 = s'" by auto
        from Cons.IH[OF ok(1)] x r \<open>s1 = s'\<close> show ?thesis by auto
      qed
    next
      case False
      show ?thesis
      proof (cases "RGB_to_YCbCr ext (cells s a)")
        case (Inl e)
        with False Inr Cons.prems show ?thesis by auto
      next
        case ycc: (Inr ycc)
        let ?s1 = "s\<lparr>cells := (cells s)(fresh s := ycc), fresh := Suc (fresh s)\<rparr>"
        show ?thesis
        proof (cases "take_axis2 ycc 0")
          case (Inl e)
          with ycc False Inr Cons.prems show ?thesis by auto
        next
          case y: (Inr y)
          with ycc False Inr Cons.prems have
            st: "sbind (normalise_all ext as) (\<lambda>(ns, ps). lift (Inr (y # ns, Some (fresh s) # ps))) ?s1 = (r, s')"
            by simp
          from st show ?thesis
          proof (cases rule: sbind_cases)
            case (fail e)
            from Cons.IH[OF fail(1)] fail(2) show ?thesis by auto
          next
            case (ok x s2)
            obtain ns ps where x: "x = (ns, ps)" by (cases x)
            from ok(2) x have r: "r = Inr (y # ns, Some (fresh s) # ps)" and "s2 = s'" by auto
            from Cons.IH[OF ok(1)] x r \<open>s2 = s'\<close> show ?thesis by auto
          qed
        qed
      qed
    qed
  qed
qed

lemma write_luminance_cases:
  assumes "write_luminance p f s = (r, s')"
  obtains (fail) e where "assign_axis2_0 (cells s p) f = Inl e" "r = Inl e" "s' = s"
        | (ok) a where "assign_axis2_0 (cells s p) f = Inr a" "r = Inr ()"
                       "s' = s\<lparr>cells := (cells s)(p := a)\<rparr>"
  using assms by (auto simp: write_luminance_def split: sum.splits)

lemma reconstruct_frame:
  "reconstruct ext aps f s = (r, s') \<Longrightarrow> (\<forall>a p. (a, Some p) \<in> set aps \<longrightarrow> F \<le> p) \<Longrightarrow>
     fresh s' = fresh s \<and> (\<forall>a<F. cells s' a = cells s a)"
proof (induction aps arbitrary: f s r s')
  case Nil
  then show ?case by auto
next
  case (Cons ap aps)
  obtain a q where ap: "ap = (a, q)" by (cases ap)
  have tl: "\<forall>a p. (a, Some p) \<in> set aps \<longrightarrow> F \<le> p" using Cons.prems(2) by auto
  show ?case
  proof (cases "is_gray (cells s a)")
    case (Inl e)
    with Cons.prems(1) ap show ?thesis by auto
  next
    case (Inr g)
    show ?thesis
    proof (cases g)
      case True
      with Inr Cons.prems(1) ap have "reconstruct ext aps f s = (r, s')" by simp
      from Cons.IH[OF this tl] show ?thesis .
    next
      case False
      show ?thesis
      proof (cases q)
        case None
        with False Inr Cons.prems(1) ap show ?thesis by auto
      next
        case (Some p)
        have Fp: "F \<le> p" using Cons.prems(2) ap Some by auto
        from False Inr Cons.prems(1) ap Some have
          st: "sbind (write_luminance p f) (\<lambda>u. sbind (read_cell p) (\<lambda>ycc.
                 sbind (lift (YCbCr_to_RGB ext ycc)) (\<lambda>rgb. reconstruct ext aps (clip01 rgb)))) s = (r, s')"
          by simp
        from st show ?thesis
        proof (cases rule: sbind_cases)
          case (fail e)
          from fail(1) show ?thesis by (cases rule: write_luminance_cases) auto
        next
          case (ok u s1)
          from ok(1) obtain arr where s1: "s1 = s\<lparr>cells := (cells s)(p := arr)\<rparr>"
            by (cases rule: write_luminance_cases) auto
          show ?thesis
          proof (cases "YCbCr_to_RGB ext (cells s1 p)")
            case (Inl e)
            with ok(2) have "s' = s1" by simp
            with s1 Fp show ?thesis by auto
          next
            case (Inr rgb)
            with ok(2) have "reconstruct ext aps (clip01 rgb) s1 = (r, s')" by simp
            from Cons.IH[OF this tl] s1 Fp show ?thesis by auto
          qed
        qed
      qed
    qed
  qed
qed

lemma sbind_assoc: "sbind (sbind m f) g = sbind m (\<lambda>x. sbind (f x) g)"
  by (auto simp: sbind_def fun_eq_iff split: prod.splits sum.splits)

lemma fuse_unfold:
  "fuse ext input_images =
     sbind (normalise_all ext input_images) (\<lambda>(normalized_images, YCbCr_images).
     sbind (lift (tranfer_to_tensor normalized_images)) (\<lambda>images_to_tensors.
     sbind (lift (fuse_private (features ext) images_to_tensors)) (\<lambda>output.
     sbind (lift (take_axis2 output 0)) (\<lambda>fused_img.
     sbind (reconstruct ext (zip input_images YCbCr_images) fused_img) (\<lambda>fused_img'.
       lift (Inr (scale_to_uint8 fused_img')))))))"
  unfolding fuse_def fused_float_def sbind_assoc
  by (rule arg_cong[where f = "sbind (normalise_all ext input_images)"])
     (simp add: fun_eq_iff split_beta sbind_assoc)

lemma fuse_frame:
  assumes "fuse ext input_images s = (r, s')"
  shows "fresh s \<le> fresh s' \<and> (\<forall>a<fresh s. cells s' a = cells s a)"
  using assms unfolding fuse_unfold
proof (cases rule: sbind_cases)
  case (fail e)
  from normalise_all_frame[OF fail(1)] show ?thesis by simp
next
  case (ok x s1)
  obtain ns ps where x: "x = (ns, ps)" by (cases x)
  note fr = normalise_all_frame[OF ok(1)]
  from fr x have ps: "\<forall>p. Some p \<in> set ps \<longrightarrow> fresh s \<le> p" by simp
  have zp: "\<forall>a p. (a, Some p) \<in> set (zip input_images ps) \<longrightarrow> fresh s \<le> p"
    using ps by (auto dest: set_zip_rightD)
  show ?thesis
  proof (cases "tranfer_to_tensor ns")
    case (Inl e)
    with ok(2) x have "s' = s1" by simp
    with fr show ?thesis by simp
  next
    case t: (Inr ts)
    show ?thesis
    proof (cases "fuse_private (features ext) ts")
      case (Inl e)
      with t ok(2) x have "s' = s1" by simp
      with fr show ?thesis by simp
    next
      case o: (Inr out)
      show ?thesis
      proof (cases "take_axis2 out 0")
        case (Inl e)
        with o t ok(2) x have "s' = s1" by simp
        with fr show ?thesis by simp
      next
        case f: (Inr fused)
        with o t ok(2) x have
          "sbind (reconstruct ext (zip input_images ps) fused)
             (\<lambda>fused_img'. lift (Inr (scale_to_uint8 fused_img'))) s1 = (r, s')" by simp
        then obtain r1 where "reconstruct ext (zip input_images ps) fused s1 = (r1, s')"
          by (cases rule: sbind_cases) auto
        from reconstruct_frame[OF this zp] fr show ?thesis by simp
      qed
    qed
  qed
qed

text \<open>
  Claim C10.  The input sequence holds addresses of arrays that exist when \<^verbatim>\<open>fuse\<close>
  is called.  Whether the call returns or raises, each of these arrays is afterwards the
  array it was: the only write of \<^verbatim>\<open>fuse\<close> goes to an array that the colour
  conversion allocated during the call.
\<close>

theorem fuse_preserves_inputs:
  assumes "\<forall>a\<in>set input_images. a < fresh s"
      and "fuse ext input_images s = (r, s')"
  shows "\<forall>a\<in>set input_images. cells s' a = cells s a"
  using fuse_frame[OF assms(2)] assms(1) by simp

lemma is_gray_three_channels:
  assumes "shape img = [H, W, C]" "3 \<le> C"
  shows "is_gray img =
           Inr (\<forall>i<H. \<forall>j<W. at3 img i j 0 = at3 img i j 1 \<and> at3 img i j 0 = at3 img i j 2)"
proof -
  let ?P = "\<forall>i<H. \<forall>j<W. at3 img i j 0 = at3 img i j 1 \<and> at3 img i j 0 = at3 img i j 2"
  have eq: "(all_equal \<lparr>shape = [H, W], item = \<lambda>ix. item img (take 2 ix @ 0 # drop 2 ix)\<rparr>
               \<lparr>shape = [H, W], item = \<lambda>ix. item img (take 2 ix @ 1 # drop 2 ix)\<rparr> \<and>
             all_equal \<lparr>shape = [H, W], item = \<lambda>ix. item img (take 2 ix @ 0 # drop 2 ix)\<rparr>
               \<lparr>shape = [H, W], item = \<lambda>ix. item img (take 2 ix @ 2 # drop 2 ix)\<rparr>) = ?P"
    by (simp add: all_equal_def list_all_indices2 at3_def del: indices.simps) blast
  from assms show ?thesis
    using eq by (auto simp add: is_gray_def take_axis2_def ndim_def)
qed

lemma is_gray_red_img: "is_gray red_img = Inr False"
proof -
  have "shape red_img = [2, 2, 3]" by (simp add: red_img_def)
  from is_gray_three_channels[OF this] show ?thesis
    by (auto simp: red_img_def intro!: exI[of _ 0])
qed

lemma is_gray_grey_img: "is_gray grey_img = Inr True"
  by (simp add: is_gray_def grey_img_def)

lemma shape_red_img: "shape red_img = [2, 2, 3]" by (simp add: red_img_def)
lemma shape_grey_img: "shape grey_img = [2, 2]" by (simp add: grey_img_def)

lemma normalise_all_store2: "\<exists>y s1. normalise_all ext_relu [0, 1] store2 = (Inr ([y, div255 grey_img], [Some 2, None]), s1) \<and>
    shape y = [2, 2] \<and> fresh s1 = 3 \<and> cells s1 0 = red_img \<and> cells s1 1 = grey_img \<and>
    shape (cells s1 2) = [2, 2, 3]"
  by (simp add: sbind_def read_cell_def alloc_def lift_def store2_def is_gray_red_img is_gray_grey_img shape_red_img RGB_to_YCbCr_def
    ext_relu_def cv_rgb2ycrcb_def div255_def ndim_def take_axis2_def)

lemma fuse_private_relu_net_2x2:
  assumes "shape t1 = [1, 3, 2, 2]" "shape t2 = [1, 3, 2, 2]"
  shows "\<exists>out. fuse_private relu_net [t1, t2] = Inr out \<and> shape out = [2, 2, 3]"
  using assms
  by (simp add: fuse_private_def sum_maps_of_def forward_def relu_net_def relu_layer_def
      sum_dim1_def ndim_def weight_map_def cat_dim1_def interpolate_def
      softmax_def Let_def exp_tensor_def mk4_def zip_star_def current_fusion_of_def
      select_dim1_def mul_def iadd_def bshape_def zeros_def nrows_def ncols_def
      output_layout_def squeeze_def transpose_120_def)

lemma tranfer_to_tensor_2x2:
  assumes "shape y = [2, 2]"
  shows "\<exists>t1 t2. tranfer_to_tensor [y, div255 grey_img] = Inr [t1, t2] \<and>
     shape t1 = [1, 3, 2, 2] \<and> shape t2 = [1, 3, 2, 2]"
  using assms by (simp add: tranfer_to_tensor_def to_tensor_def ndim_def div255_def shape_grey_img)

lemma reconstruct_store2:
  assumes "shape fused = [2, 2]" "cells s1 0 = red_img" "cells s1 1 = grey_img"
    "shape (cells s1 2) = [2, 2, 3]"
  shows "\<exists>f s2. reconstruct ext_relu [(0, Some 2), (1, None)] fused s1 = (Inr f, s2) \<and>
     fresh s2 = fresh s1 \<and> shape f = [2, 2, 3]"
  using assms
  by (simp add: sbind_def read_cell_def lift_def is_gray_red_img is_gray_grey_img write_luminance_def assign_axis2_0_def
      ndim_def bshape_def YCbCr_to_RGB_def ext_relu_def cv_ycrcb2rgb_def clip01_def Let_def)

lemma fuse_store2:
  "\<exists>out s'. fuse ext_relu [0, 1] store2 = (Inr out, s') \<and> fresh s' = 3 \<and> shape out = [2, 2, 3]"
proof -
  obtain y s1 where n: "normalise_all ext_relu [0, 1] store2 = (Inr ([y, div255 grey_img], [Some 2, None]), s1)"
    and y: "shape y = [2, 2]" and s1: "fresh s1 = 3" "cells s1 0 = red_img" "cells s1 1 = grey_img"
      "shape (cells s1 2) = [2, 2, 3]"
    using normalise_all_store2 by blast
  obtain t1 t2 where t: "tranfer_to_tensor [y, div255 grey_img] = Inr [t1, t2]"
    and sh: "shape t1 = [1, 3, 2, 2]" "shape t2 = [1, 3, 2, 2]"
    using tranfer_to_tensor_2x2[OF y] by blast
  obtain out where o: "fuse_private relu_net [t1, t2] = Inr out" and so: "shape out = [2, 2, 3]"
    using fuse_private_relu_net_2x2[OF sh] by blast
  obtain fused where f: "take_axis2 out 0 = Inr fused" and sf: "shape fused = [2, 2]"
    using so by (simp add: take_axis2_def ndim_def)
  obtain f' s2 where r: "reconstruct ext_relu [(0, Some 2), (1, None)] fused s1 = (Inr f', s2)"
    and s2: "fresh s2 = fresh s1" "shape f' = [2, 2, 3]"
    using reconstruct_store2[OF sf s1(2,3,4)] by blast
  have "fuse ext_relu [0, 1] store2 = (Inr (scale_to_uint8 f'), s2)"
    using n t o f r by (simp add: fuse_unfold sbind_def lift_def ext_relu_def)
  then show ?thesis using s2 s1(1) by (simp add: scale_to_uint8_def)
qed

text \<open>A colour and a grey image through the stand-ins: the call returns, it has allocated
  one array (the YCbCr conversion of the colour image, which it then wrote to), and both
  inputs are what they were.\<close>

theorem fuse_preserves_inputs_witness:
  "\<exists>out s'. fuse ext_relu [0, 1] store2 = (Inr out, s') \<and> fresh s' = 3 \<and>
     cells s' 0 = red_img \<and> cells s' 1 = grey_img"
proof -
  obtain out s' where f: "fuse ext_relu [0, 1] store2 = (Inr out, s')" and fr: "fresh s' = 3"
    using fuse_store2 by blast
  have a: "\<forall>a\<in>set [0, 1]. a < fresh store2" by (simp add: store2_def)
  from fuse_preserves_inputs[OF a f] have "cells s' 0 = red_img \<and> cells s' 1 = grey_img"
    by (simp add: store2_def)
  with f fr show ?thesis by blast
qed

section \<open>The range of the returned pixels\<close>






lemma normalise_all_grey:
  "\<forall>a\<in>set as. is_gray (cells s a) = Inr True \<Longrightarrow>
     normalise_all ext as s = (Inr (map (\<lambda>a. div255 (cells s a)) as, map (\<lambda>a. None) as), s)"
  by (induction as) (simp_all add: sbind_Inr)

















section \<open>The exceptions of fuse\<close>

lemma ebind_eq_Inl: "ebind m f = Inl e \<longleftrightarrow> m = Inl e \<or> (\<exists>x. m = Inr x \<and> f x = Inl e)"
  by (cases m) (simp_all add: ebind_def)

lemma ebind_lib:
  assumes "ebind m f = Inl e" "\<And>e. m = Inl e \<Longrightarrow> library_error e"
    "\<And>x e. f x = Inl e \<Longrightarrow> library_error e"
  shows "library_error e"
  using assms by (auto simp: ebind_eq_Inl)

lemma emap_lib:
  assumes "emap f xs = Inl e" "\<And>x e. f x = Inl e \<Longrightarrow> library_error e"
  shows "library_error e"
  using assms by (induction xs arbitrary: e) (auto simp: ebind_eq_Inl)

lemma take_axis2_lib: "take_axis2 a k = Inl e \<Longrightarrow> library_error e"
  by (auto simp: take_axis2_def library_error_def split: if_splits)

lemma is_gray_lib: "is_gray img = Inl e \<Longrightarrow> library_error e"
  by (auto simp: is_gray_def ebind_eq_Inl dest: take_axis2_lib split: if_splits)

lemma sum_dim1_lib: "sum_dim1 t = Inl e \<Longrightarrow> library_error e"
  by (auto simp: sum_dim1_def library_error_def split: if_splits)

lemma cat_dim1_lib: "cat_dim1 ts = Inl e \<Longrightarrow> library_error e"
  by (auto simp: cat_dim1_def library_error_def split: if_splits list.splits)

lemma interpolate_lib: "interpolate x sz = Inl e \<Longrightarrow> library_error e"
  by (auto simp: interpolate_def Let_def library_error_def split: if_splits)

lemma softmax_lib: "softmax t = Inl e \<Longrightarrow> library_error e"
  by (auto simp: softmax_def Let_def ebind_eq_Inl dest: sum_dim1_lib)

lemma select_dim1_lib: "select_dim1 w i = Inl e \<Longrightarrow> library_error e"
  by (auto simp: select_dim1_def library_error_def split: if_splits)

lemma mul_lib: "mul a b = Inl e \<Longrightarrow> library_error e"
  by (auto simp: mul_def library_error_def split: option.splits)

lemma iadd_lib: "iadd a b = Inl e \<Longrightarrow> library_error e"
  by (auto simp: iadd_def library_error_def split: if_splits)

lemma torch_max_lib: "torch_max a b = Inl e \<Longrightarrow> library_error e"
  by (auto simp: torch_max_def library_error_def split: option.splits)

lemma to_tensor_lib: "to_tensor a = Inl e \<Longrightarrow> library_error e"
  by (auto simp: to_tensor_def library_error_def split: if_splits)

lemma assign_axis2_0_lib: "assign_axis2_0 a v = Inl e \<Longrightarrow> library_error e"
  by (auto simp: assign_axis2_0_def Let_def library_error_def split: if_splits)

lemma weight_map_lib: "weight_map ts sm = Inl e \<Longrightarrow> library_error e"
  by (cases ts)
     (auto simp: weight_map_def ebind_eq_Inl library_error_def[of IndexError]
      dest: cat_dim1_lib interpolate_lib softmax_lib)

lemma weighted_sum_lib: "weighted_sum ts idx w cf = Inl e \<Longrightarrow> library_error e"
  by (induction ts arbitrary: idx cf)
     (auto simp: ebind_eq_Inl dest: select_dim1_lib mul_lib iadd_lib)

lemma current_fusion_of_lib: "current_fusion_of ts sm = Inl e \<Longrightarrow> library_error e"
  by (cases ts)
     (auto simp: current_fusion_of_def ebind_eq_Inl library_error_def[of IndexError]
      dest: weight_map_lib weighted_sum_lib select_dim1_lib mul_lib iadd_lib)

lemma depth_loop_lib: "depth_loop ts sms m = Inl e \<Longrightarrow> library_error e"
  by (induction sms arbitrary: m)
     (auto simp: ebind_eq_Inl dest: current_fusion_of_lib torch_max_lib split: option.splits)

lemma forward_loop_lib:
  assumes "\<forall>l\<in>set ls. raises_only RuntimeError l"
  shows "forward_loop ls idx x fms = Inl e \<Longrightarrow> library_error e"
  using assms
proof (induction ls arbitrary: idx x fms)
  case Nil
  then show ?case by simp
next
  case (Cons l ls)
  from Cons.prems(1) show ?case
  proof (simp add: ebind_eq_Inl, elim disjE exE conjE)
    assume "l x = Inl e"
    with Cons.prems(2) have "e = RuntimeError" by (auto simp: raises_only_def)
    then show ?thesis by (simp add: library_error_def)
  next
    fix x' assume "forward_loop ls (Suc idx) x' (if idx = 3 then fms @ [x'] else fms) = Inl e"
    from Cons.IH[OF this] Cons.prems(2) show ?thesis by simp
  qed
qed

lemma fuse_private_lib:
  assumes "\<forall>l\<in>set layers. raises_only RuntimeError l" "fuse_private layers ts = Inl e"
  shows "library_error e"
proof -
  have sm: "library_error e'" if "sum_maps_of layers t = Inl e'" for t e'
    using that forward_loop_lib[OF assms(1)]
    by (auto simp: sum_maps_of_def forward_def ebind_eq_Inl dest: emap_lib sum_dim1_lib)
  from assms(2) show ?thesis
    by (auto simp: fuse_private_def ebind_eq_Inl library_error_def[of AttributeError]
        dest: emap_lib[OF _ sm] depth_loop_lib split: option.splits)
qed

lemma sbind_eq_Inl:
  assumes "sbind m f s = (Inl e, s')"
  shows "m s = (Inl e, s') \<or> (\<exists>x s1. m s = (Inr x, s1) \<and> f x s1 = (Inl e, s'))"
  using assms by (auto simp: sbind_def split: prod.splits sum.splits)

lemma normalise_all_lib:
  assumes cv: "raises_only CvError (RGB2YCrCb ext)"
  shows "normalise_all ext as s = (Inl e, s') \<Longrightarrow> library_error e"
proof (induction as arbitrary: s e s')
  case Nil
  then show ?case by simp
next
  case (Cons a as)
  have rec: "library_error e" if "sbind (normalise_all ext as) g s1 = (Inl e, s')"
    "\<And>x s2. g x s2 \<noteq> (Inl e, s')" for g s1
    using sbind_eq_Inl[OF that(1)] that(2) Cons.IH by blast
  show ?case
  proof (cases "is_gray (cells s a)")
    case (Inl e')
    with Cons.prems have "e = e'" by simp
    with Inl show ?thesis by (auto dest: is_gray_lib)
  next
    case (Inr g)
    show ?thesis
    proof (cases g)
      case True
      with Inr Cons.prems show ?thesis by (auto intro!: rec split: prod.splits)
    next
      case False
      show ?thesis
      proof (cases "RGB_to_YCbCr ext (cells s a)")
        case (Inl e')
        with False Inr Cons.prems have "e = e'" by simp
        with Inl cv have "e = CvError" by (auto simp: RGB_to_YCbCr_def raises_only_def)
        then show ?thesis by (simp add: library_error_def)
      next
        case ycc: (Inr ycc)
        show ?thesis
        proof (cases "take_axis2 ycc 0")
          case (Inl e')
          with ycc False Inr Cons.prems have "e = e'" by simp
          with Inl show ?thesis by (auto dest: take_axis2_lib)
        next
          case (Inr y)
          with ycc False \<open>is_gray (cells s a) = Inr g\<close> Cons.prems show ?thesis
            by (auto intro!: rec split: prod.splits)
        qed
      qed
    qed
  qed
qed

lemma reconstruct_lib:
  assumes cv: "raises_only CvError (YCrCb2RGB ext)"
  shows "reconstruct ext aps f s = (Inl e, s') \<Longrightarrow> library_error e"
proof (induction aps arbitrary: f s)
  case Nil
  then show ?case by simp
next
  case (Cons ap aps)
  obtain a q where ap: "ap = (a, q)" by (cases ap)
  show ?case
  proof (cases "is_gray (cells s a)")
    case (Inl e')
    with Cons.prems ap have "e = e'" by simp
    with Inl show ?thesis by (auto dest: is_gray_lib)
  next
    case (Inr g)
    show ?thesis
    proof (cases g)
      case True
      with Inr Cons.prems ap have "reconstruct ext aps f s = (Inl e, s')" by simp
      then show ?thesis by (rule Cons.IH)
    next
      case False
      show ?thesis
      proof (cases q)
        case None
        with False Inr Cons.prems ap show ?thesis by (simp add: library_error_def)
      next
        case (Some p)
        from False Inr Cons.prems ap Some have
          st: "sbind (write_luminance p f) (\<lambda>u. sbind (read_cell p) (\<lambda>ycc.
                 sbind (lift (YCbCr_to_RGB ext ycc)) (\<lambda>rgb. reconstruct ext aps (clip01 rgb)))) s = (Inl e, s')"
          by simp
        from st show ?thesis
        proof (cases rule: sbind_cases)
          case (fail e')
          from fail(1) show ?thesis
            by (cases rule: write_luminance_cases) (use fail(2) in \<open>auto dest: assign_axis2_0_lib\<close>)
        next
          case (ok u s1)
          show ?thesis
          proof (cases "YCbCr_to_RGB ext (cells s1 p)")
            case (Inl e')
            with ok(2) have "e = e'" by simp
            with Inl cv have "e = CvError" by (auto simp: YCbCr_to_RGB_def raises_only_def)
            then show ?thesis by (simp add: library_error_def)
          next
            case (Inr rgb)
            with ok(2) have "reconstruct ext aps (clip01 rgb) s1 = (Inl e, s')" by simp
            then show ?thesis by (rule Cons.IH)
          qed
        qed
      qed
    qed
  qed
qed

lemma fuse_lib:
  assumes tr: "\<forall>l\<in>set (features ext). raises_only RuntimeError l"
      and cv: "raises_only CvError (RGB2YCrCb ext)" "raises_only CvError (YCrCb2RGB ext)"
      and f: "fuse ext input_images s = (Inl e, s')"
  shows "library_error e"
  using f unfolding fuse_unfold
proof (cases rule: sbind_cases)
  case (fail e')
  then show ?thesis using normalise_all_lib[OF cv(1)] by auto
next
  case (ok x s1)
  obtain ns ps where x: "x = (ns, ps)" by (cases x)
  show ?thesis
  proof (cases "tranfer_to_tensor ns")
    case (Inl e')
    with ok(2) x have "e = e'" by simp
    with Inl show ?thesis by (auto simp: tranfer_to_tensor_def dest: emap_lib to_tensor_lib)
  next
    case t: (Inr ts)
    show ?thesis
    proof (cases "fuse_private (features ext) ts")
      case (Inl e')
      with t ok(2) x have "e = e'" by simp
      with Inl fuse_private_lib[OF tr] show ?thesis by auto
    next
      case o: (Inr out)
      show ?thesis
      proof (cases "take_axis2 out 0")
        case (Inl e')
        with o t ok(2) x have "e = e'" by simp
        with Inl show ?thesis by (auto dest: take_axis2_lib)
      next
        case fu: (Inr fused)
        with o t ok(2) x have
          "sbind (reconstruct ext (zip input_images ps) fused)
             (\<lambda>fused_img'. lift (Inr (scale_to_uint8 fused_img'))) s1 = (Inl e, s')" by simp
        from sbind_eq_Inl[OF this] have "reconstruct ext (zip input_images ps) fused s1 = (Inl e, s')"
          by auto
        then show ?thesis by (rule reconstruct_lib[OF cv(2)])
      qed
    qed
  qed
qed

lemma is_gray_bad_channels:
  assumes "shape img = [H, W, C]" "C = 0 \<or> C = 2"
  shows "is_gray img = Inl IndexError"
  using assms by (auto simp: is_gray_def take_axis2_def ndim_def)

lemma normalise_all_raises:
  "\<forall>b\<in>set as. b < fresh s \<Longrightarrow> a \<in> set as \<Longrightarrow> is_gray (cells s a) = Inl e0 \<Longrightarrow>
     \<exists>e s'. normalise_all ext as s = (Inl e, s')"
proof (induction as arbitrary: s)
  case Nil
  then show ?case by simp
next
  case (Cons a' as)
  have rec: "\<exists>e s'. sbind (normalise_all ext as) g s1 = (Inl e, s')"
    if "\<exists>e s'. normalise_all ext as s1 = (Inl e, s')" for g s1
    using that by (auto simp: sbind_def)
  show ?case
  proof (cases "is_gray (cells s a')")
    case (Inl e')
    then show ?thesis by simp
  next
    case (Inr g)
    with Cons.prems(3) have ne: "a \<noteq> a'" by auto
    with Cons.prems(2) have a: "a \<in> set as" by simp
    have lt: "\<forall>b\<in>set as. b < fresh s" using Cons.prems(1) by simp
    show ?thesis
    proof (cases g)
      case True
      with Inr show ?thesis using rec[OF Cons.IH[OF lt a Cons.prems(3)]] by simp
    next
      case False
      show ?thesis
      proof (cases "RGB_to_YCbCr ext (cells s a')")
        case (Inl e')
        with False Inr show ?thesis by simp
      next
        case ycc: (Inr ycc)
        let ?s1 = "s\<lparr>cells := (cells s)(fresh s := ycc), fresh := Suc (fresh s)\<rparr>"
        show ?thesis
        proof (cases "take_axis2 ycc 0")
          case (Inl e')
          with ycc False Inr show ?thesis by simp
        next
          case y: (Inr y)
          have lt1: "\<forall>b\<in>set as. b < fresh ?s1" using lt by auto
          have "a < fresh s" using lt a by simp
          then have g1: "is_gray (cells ?s1 a) = Inl e0" using Cons.prems(3) by simp
          from rec[OF Cons.IH[OF lt1 a g1]] y ycc False Inr show ?thesis by simp
        qed
      qed
    qed
  qed
qed

lemma fuse_raises_of_normalise:
  "normalise_all ext as s = (Inl e, s') \<Longrightarrow> fuse ext as s = (Inl e, s')"
  by (simp add: fuse_unfold sbind_Inl)

lemma fuse_bad_channels:
  assumes al: "\<forall>a\<in>set input_images. a < fresh s"
      and a: "a \<in> set input_images" and sh: "shape (cells s a) = [H, W, C]" and c: "C = 0 \<or> C = 2"
  shows "\<exists>e. fst (fuse ext input_images s) = Inl e"
    and "a = hd input_images \<Longrightarrow> fst (fuse ext input_images s) = Inl IndexError"
proof -
  have g: "is_gray (cells s a) = Inl IndexError" using sh c by (rule is_gray_bad_channels)
  from normalise_all_raises[OF al a g] obtain e s' where
    "normalise_all ext input_images s = (Inl e, s')" by blast
  from fuse_raises_of_normalise[OF this] show "\<exists>e. fst (fuse ext input_images s) = Inl e" by simp
  assume h: "a = hd input_images"
  from a obtain rest where "input_images = a # rest" using h by (cases input_images) auto
  then have "normalise_all ext input_images s = (Inl IndexError, s)" using g by simp
  from fuse_raises_of_normalise[OF this] show "fst (fuse ext input_images s) = Inl IndexError" by simp
qed

lemma run_layers_keeps:
  "\<forall>l\<in>set ls. keeps_size l \<Longrightarrow> run_layers ls x = Inr a \<Longrightarrow>
     ndim a = ndim x \<and> drop 2 (shape a) = drop 2 (shape x)"
proof (induction ls arbitrary: x)
  case Nil
  then show ?case by simp
next
  case (Cons l ls)
  from Cons.prems(2) obtain x' where l: "l x = Inr x'" and r: "run_layers ls x' = Inr a"
    by (auto simp: ebind_eq_Inr)
  from Cons.prems(1) l have "ndim x' = ndim x \<and> drop 2 (shape x') = drop 2 (shape x)"
    by (auto simp: keeps_size_def)
  moreover from Cons.IH[OF _ r] Cons.prems(1)
  have "ndim a = ndim x' \<and> drop 2 (shape a) = drop 2 (shape x')" by simp
  ultimately show ?case by simp
qed

lemma forward_loop_err:
  "\<forall>l\<in>set ls. raises_only RuntimeError l \<Longrightarrow> forward_loop ls idx x fms = Inl e \<Longrightarrow>
     e = RuntimeError"
proof (induction ls arbitrary: idx x fms)
  case Nil
  then show ?case by simp
next
  case (Cons l ls)
  from Cons.prems(2) show ?case
  proof (simp add: ebind_eq_Inl, elim disjE exE conjE)
    assume "l x = Inl e"
    with Cons.prems(1) show ?thesis by (auto simp: raises_only_def)
  next
    fix x' assume "forward_loop ls (Suc idx) x' (if idx = 3 then fms @ [x'] else fms) = Inl e"
    from Cons.IH[OF _ this] Cons.prems(1) show ?thesis by simp
  qed
qed

lemma emap_Inl: "emap f xs = Inl e \<Longrightarrow> \<exists>x\<in>set xs. f x = Inl e"
  by (induction xs) (auto simp: ebind_eq_Inl)

lemma sum_maps_of_sized:
  assumes big: "3 < length layers" and keep: "\<forall>l\<in>set (take 4 layers). keeps_size l"
      and tr: "\<forall>l\<in>set layers. raises_only RuntimeError l" and nd: "ndim t = 4"
  shows "sum_maps_of layers t = Inl e \<Longrightarrow> e = RuntimeError"
    and "sum_maps_of layers t = Inr sms \<Longrightarrow>
           \<exists>s. sms = [s] \<and> ndim s = 4 \<and> drop 2 (shape s) = drop 2 (shape t)"
proof -
  have fm: "\<exists>a. fms = [a] \<and> ndim a = 4 \<and> drop 2 (shape a) = drop 2 (shape t)"
    if "forward layers t = Inr fms" for fms
  proof -
    from forward_Inr[OF that] big obtain a where a: "run_layers (take 4 layers) t = Inr a" "fms = [a]"
      by auto
    from run_layers_keeps[OF keep a(1)] nd a(2) show ?thesis by simp
  qed
  {
    assume "sum_maps_of layers t = Inl e"
    then consider "forward layers t = Inl e"
      | fms where "forward layers t = Inr fms" "emap sum_dim1 fms = Inl e"
      by (auto simp: sum_maps_of_def ebind_eq_Inl)
    then show "e = RuntimeError"
    proof cases
      case 1
      then show ?thesis using forward_loop_err[OF tr] by (simp add: forward_def)
    next
      case 2
      from fm[OF 2(1)] obtain a where "fms = [a]" "ndim a = 4" by blast
      with 2(2) show ?thesis by (simp add: sum_dim1_def)
    qed
  }
  {
    assume "sum_maps_of layers t = Inr sms"
    then obtain fms where f: "forward layers t = Inr fms" and e: "emap sum_dim1 fms = Inr sms"
      by (auto simp: sum_maps_of_def ebind_eq_Inr)
    from fm[OF f] obtain a where a: "fms = [a]" "ndim a = 4" "drop 2 (shape a) = drop 2 (shape t)"
      by blast
    from e a(1) obtain s where s: "sum_dim1 a = Inr s" "sms = [s]"
      by (auto simp: ebind_eq_Inr)
    from sum_dim1_Inr(3)[OF s(1)] a(2,3) have "ndim s = 4" "drop 2 (shape s) = drop 2 (shape t)"
      by (simp_all add: ndim_def drop_update_cancel)
    with s(2) show "\<exists>s. sms = [s] \<and> ndim s = 4 \<and> drop 2 (shape s) = drop 2 (shape t)" by blast
  }
qed

lemma fuse_private_mismatch:
  assumes big: "3 < length layers" and keep: "\<forall>l\<in>set (take 4 layers). keeps_size l"
      and tr: "\<forall>l\<in>set layers. raises_only RuntimeError l"
      and nd: "\<forall>t\<in>set ts. ndim t = 4"
      and mis: "\<exists>t\<in>set ts. drop 2 (shape t) \<noteq> drop 2 (shape (hd ts))"
  shows "fuse_private layers ts = Inl RuntimeError"
proof (cases "emap (sum_maps_of layers) ts")
  case (Inl e)
  from emap_Inl[OF this] obtain t where "t \<in> set ts" "sum_maps_of layers t = Inl e" by blast
  with sum_maps_of_sized(1)[OF big keep tr] nd have "e = RuntimeError" by blast
  with Inl show ?thesis by (simp add: fuse_private_def)
next
  case (Inr sms)
  have l2: "list_all2 (\<lambda>t s. sum_maps_of layers t = Inr s) ts sms" using emap_Inr[OF Inr] .
  have len: "length sms = length ts" using l2 by (simp add: list_all2_lengthD)
  have el: "\<exists>s. sms ! q = [s] \<and> ndim s = 4 \<and> drop 2 (shape s) = drop 2 (shape (ts ! q))"
    if "q < length ts" for q
  proof -
    from l2 that have "sum_maps_of layers (ts ! q) = Inr (sms ! q)"
      by (simp add: list_all2_conv_all_nth)
    moreover have "ndim (ts ! q) = 4" using nd that by simp
    ultimately show ?thesis using sum_maps_of_sized(2)[OF big keep tr] by blast
  qed
  from mis have ne: "ts \<noteq> []" by auto
  then have sne: "sms \<noteq> []" using len by auto
  have one: "\<forall>s\<in>set sms. length s = 1"
  proof
    fix s assume "s \<in> set sms"
    then obtain q where "q < length sms" "sms ! q = s" by (auto simp: in_set_conv_nth)
    with el[of q] len show "length s = 1" by auto
  qed
  from min_len_const[OF sne one] have z: "zip_star sms = [map (\<lambda>xs. xs ! 0) sms]"
    by (simp add: zip_star_def)
  let ?tup = "map (\<lambda>xs. xs ! 0) sms"
  from mis obtain q where q: "q < length ts" "drop 2 (shape (ts ! q)) \<noteq> drop 2 (shape (hd ts))"
    by (auto simp: in_set_conv_nth)
  from el[OF q(1)] obtain sq where sq: "sms ! q = [sq]" "drop 2 (shape sq) = drop 2 (shape (ts ! q))"
    by blast
  have "0 < length ts" using ne by simp
  from el[OF this] obtain s0 where s0: "sms ! 0 = [s0]" "drop 2 (shape s0) = drop 2 (shape (ts ! 0))"
    by blast
  have hd0: "hd ts = ts ! 0" using ne by (simp add: hd_conv_nth)
  have tq: "?tup ! q = sq" using q(1) len sq(1) by simp
  have t0: "?tup ! 0 = s0" using sne s0(1) by simp
  obtain rest where tup: "?tup = s0 # rest"
    using t0 sne by (cases ?tup) auto
  have mem: "sq \<in> set ?tup" using tq q(1) len by (metis length_map nth_mem)
  have diff: "(shape sq)[1 := 0] \<noteq> (shape s0)[1 := 0]"
  proof
    assume "(shape sq)[1 := 0] = (shape s0)[1 := 0]"
    then have "drop 2 ((shape sq)[1 := 0]) = drop 2 ((shape s0)[1 := 0])" by simp
    then have "drop 2 (shape sq) = drop 2 (shape s0)" by (simp add: drop_update_cancel)
    with sq(2) s0(2) q(2) hd0 show False by simp
  qed
  have "cat_dim1 ?tup = Inl RuntimeError"
    using mem diff by (auto simp: cat_dim1_def tup list_ex_iff)
  then have "current_fusion_of ts ?tup = Inl RuntimeError"
    by (simp add: current_fusion_of_def weight_map_def)
  then show ?thesis using Inr z by (simp add: fuse_private_def)
qed

lemma is_gray_2d: "ndim img = 2 \<Longrightarrow> is_gray img = Inr True"
  by (simp add: is_gray_def ndim_def)

lemma to_tensor_2d:
  "ndim img = 2 \<Longrightarrow> \<exists>t. to_tensor (div255 img) = Inr t \<and> ndim t = 4 \<and> drop 2 (shape t) = shape img"
  by (cases "shape img"; cases "tl (shape img)")
     (auto simp: to_tensor_def div255_def ndim_def)

lemma emap_total:
  "\<forall>x\<in>set xs. \<exists>y. f x = Inr y \<and> P x y \<Longrightarrow> \<exists>ys. emap f xs = Inr ys \<and> list_all2 P xs ys"
proof (induction xs)
  case Nil
  then show ?case by simp
next
  case (Cons x xs)
  from Cons.prems obtain y where y: "f x = Inr y" "P x y" by auto
  from Cons.IH Cons.prems obtain ys where "emap f xs = Inr ys" "list_all2 P xs ys" by auto
  with y show ?case by auto
qed

lemma fuse_mismatch:
  assumes d2: "\<forall>a\<in>set input_images. ndim (cells s a) = 2"
      and mis: "\<exists>a\<in>set input_images. \<exists>b\<in>set input_images. shape (cells s a) \<noteq> shape (cells s b)"
      and big: "3 < length (features ext)"
      and keep: "\<forall>l\<in>set (take 4 (features ext)). keeps_size l"
      and tr: "\<forall>l\<in>set (features ext). raises_only RuntimeError l"
  shows "fuse ext input_images s = (Inl RuntimeError, s)"
proof -
  let ?ns = "map (\<lambda>a. div255 (cells s a)) input_images"
  have g: "\<forall>a\<in>set input_images. is_gray (cells s a) = Inr True"
    using d2 is_gray_2d by blast
  have n: "normalise_all ext input_images s = (Inr (?ns, map (\<lambda>a. None) input_images), s)"
    using g by (rule normalise_all_grey)
  have "\<forall>a\<in>set input_images. \<exists>t. to_tensor (div255 (cells s a)) = Inr t \<and>
      (ndim t = 4 \<and> drop 2 (shape t) = shape (cells s a))"
    using d2 to_tensor_2d by blast
  from emap_total[OF this] obtain ts where
    ts: "emap (\<lambda>a. to_tensor (div255 (cells s a))) input_images = Inr ts" and
    l2: "list_all2 (\<lambda>a t. ndim t = 4 \<and> drop 2 (shape t) = shape (cells s a)) input_images ts"
    by blast
  have em: "emap to_tensor ?ns = emap (\<lambda>a. to_tensor (div255 (cells s a))) input_images"
    by (induction input_images) simp_all
  have tt: "tranfer_to_tensor ?ns = Inr ts" using ts em by (simp add: tranfer_to_tensor_def)
  have len: "length ts = length input_images" using l2 by (simp add: list_all2_lengthD)
  have el: "ndim (ts ! q) = 4 \<and> drop 2 (shape (ts ! q)) = shape (cells s (input_images ! q))"
    if "q < length input_images" for q
    using l2 that by (simp add: list_all2_conv_all_nth)
  have nd: "\<forall>t\<in>set ts. ndim t = 4"
    using el len by (auto simp: in_set_conv_nth)
  from mis obtain a b where ab: "a \<in> set input_images" "b \<in> set input_images"
    "shape (cells s a) \<noteq> shape (cells s b)" by blast
  then obtain qa qb where q: "qa < length input_images" "input_images ! qa = a"
    "qb < length input_images" "input_images ! qb = b" by (auto simp: in_set_conv_nth)
  have ne: "ts \<noteq> []" using q(1) len by auto
  have hd0: "hd ts = ts ! 0" using ne by (simp add: hd_conv_nth)
  have "0 < length input_images" using q(1) by auto
  note e0 = el[OF this]
  have "drop 2 (shape (ts ! qa)) \<noteq> drop 2 (shape (hd ts)) \<or>
        drop 2 (shape (ts ! qb)) \<noteq> drop 2 (shape (hd ts))"
    using el[OF q(1)] el[OF q(3)] e0 q(2,4) ab(3) hd0 by auto
  then have m: "\<exists>t\<in>set ts. drop 2 (shape t) \<noteq> drop 2 (shape (hd ts))"
    using q(1,3) len by (metis nth_mem)
  from fuse_private_mismatch[OF big keep tr nd m] n tt show ?thesis
    by (simp add: fuse_unfold sbind_Inr)
qed

text \<open>
  Claim C3, as the code has it.  \<^verbatim>\<open>fuse\<close> validates nothing and the source defines no
  exception class: whatever the input, it never fails with \<open>DimensionMismatchError\<close> or
  \<open>ChannelError\<close>.  A call that contains an image of three axes with 0 or 2 channels fails
  with one of the exceptions of Python and the libraries, with IndexError (from
  \<^verbatim>\<open>_is_gray\<close>) when that image is the first.  A call on images of two axes that do
  not all have one shape fails with RuntimeError, from \<^verbatim>\<open>torch.cat\<close> or from a layer,
  when the layers 0 to 3 of the network keep the spatial size.
\<close>

theorem fuse_exceptions:
  assumes al: "\<forall>a\<in>set input_images. a < fresh s"
      and tr: "\<forall>l\<in>set (features ext). raises_only RuntimeError l"
      and cv: "raises_only CvError (RGB2YCrCb ext)" "raises_only CvError (YCrCb2RGB ext)"
  shows "fst (fuse ext input_images s) \<noteq> Inl DimensionMismatchError \<and>
         fst (fuse ext input_images s) \<noteq> Inl ChannelError \<and>
         ((\<exists>a\<in>set input_images. \<exists>H W C. shape (cells s a) = [H, W, C] \<and> (C = 0 \<or> C = 2)) \<longrightarrow>
            (\<exists>e. fst (fuse ext input_images s) = Inl e \<and> library_error e)) \<and>
         ((\<exists>H W C. input_images \<noteq> [] \<and> shape (cells s (hd input_images)) = [H, W, C] \<and>
                    (C = 0 \<or> C = 2)) \<longrightarrow>
            fst (fuse ext input_images s) = Inl IndexError) \<and>
         ((\<forall>a\<in>set input_images. ndim (cells s a) = 2) \<and>
          (\<exists>a\<in>set input_images. \<exists>b\<in>set input_images. shape (cells s a) \<noteq> shape (cells s b)) \<and>
          3 < length (features ext) \<and> (\<forall>l\<in>set (take 4 (features ext)). keeps_size l) \<longrightarrow>
            fst (fuse ext input_images s) = Inl RuntimeError)"
proof -
  have lib: "library_error e" if "fst (fuse ext input_images s) = Inl e" for e
  proof -
    obtain r s' where rs: "fuse ext input_images s = (r, s')" by (cases "fuse ext input_images s")
    with that have "fuse ext input_images s = (Inl e, s')" by simp
    from fuse_lib[OF tr cv this] show ?thesis .
  qed
  have p1: "fst (fuse ext input_images s) \<noteq> Inl DimensionMismatchError"
    using lib[of DimensionMismatchError] by (auto simp: library_error_def)
  have p2: "fst (fuse ext input_images s) \<noteq> Inl ChannelError"
    using lib[of ChannelError] by (auto simp: library_error_def)
  have p3: "(\<exists>a\<in>set input_images. \<exists>H W C. shape (cells s a) = [H, W, C] \<and> (C = 0 \<or> C = 2)) \<longrightarrow>
            (\<exists>e. fst (fuse ext input_images s) = Inl e \<and> library_error e)"
    using fuse_bad_channels(1)[OF al] lib by blast
  have p4: "(\<exists>H W C. input_images \<noteq> [] \<and> shape (cells s (hd input_images)) = [H, W, C] \<and>
                    (C = 0 \<or> C = 2)) \<longrightarrow>
            fst (fuse ext input_images s) = Inl IndexError"
  proof
    assume "\<exists>H W C. input_images \<noteq> [] \<and> shape (cells s (hd input_images)) = [H, W, C] \<and>
                    (C = 0 \<or> C = 2)"
    then obtain H W C where h: "input_images \<noteq> []"
      "shape (cells s (hd input_images)) = [H, W, C]" "C = 0 \<or> C = 2" by blast
    from h(1) have "hd input_images \<in> set input_images" by simp
    from fuse_bad_channels(2)[OF al this h(2,3)] show "fst (fuse ext input_images s) = Inl IndexError"
      by simp
  qed
  have p5: "(\<forall>a\<in>set input_images. ndim (cells s a) = 2) \<and>
          (\<exists>a\<in>set input_images. \<exists>b\<in>set input_images. shape (cells s a) \<noteq> shape (cells s b)) \<and>
          3 < length (features ext) \<and> (\<forall>l\<in>set (take 4 (features ext)). keeps_size l) \<longrightarrow>
            fst (fuse ext input_images s) = Inl RuntimeError"
    using fuse_mismatch[OF _ _ _ _ tr] by auto
  from p1 p2 p3 p4 p5 show ?thesis by blast
qed

lemma relu_contract: "raises_only e relu_layer" "keeps_size relu_layer"
  by (simp_all add: raises_only_def keeps_size_def relu_layer_def ndim_def)

lemma ext_relu_contract:
  "\<forall>l\<in>set (features ext_relu). raises_only RuntimeError l"
  "raises_only CvError (RGB2YCrCb ext_relu)" "raises_only CvError (YCrCb2RGB ext_relu)"
  "3 < length (features ext_relu)" "\<forall>l\<in>set (take 4 (features ext_relu)). keeps_size l"
proof -
  show "\<forall>l\<in>set (features ext_relu). raises_only RuntimeError l"
    by (simp add: ext_relu_def relu_net_def relu_contract)
  show "raises_only CvError (RGB2YCrCb ext_relu)"
    by (auto simp: ext_relu_def raises_only_def cv_rgb2ycrcb_def split: if_splits)
  show "raises_only CvError (YCrCb2RGB ext_relu)"
    by (auto simp: ext_relu_def raises_only_def cv_ycrcb2rgb_def split: if_splits)
  show "3 < length (features ext_relu)" by (simp add: ext_relu_def relu_net_def)
  show "\<forall>l\<in>set (take 4 (features ext_relu)). keeps_size l"
    by (simp add: ext_relu_def relu_net_def relu_contract)
qed

text \<open>
  Claim C3 as the specification words it fails on both halves: a two-channel image makes
  \<^verbatim>\<open>fuse\<close> raise IndexError, not \<open>ChannelError\<close>, and a 2 x 2 image with a 2 x 3
  image makes it raise RuntimeError, not \<open>DimensionMismatchError\<close>.
\<close>

theorem fuse_raises_library_errors:
  "fst (fuse ext_relu [0] store_two_channels) = Inl IndexError \<and>
   fst (fuse ext_relu [0, 1] store_mismatch) = Inl RuntimeError"
proof
  have a: "\<forall>a\<in>set [0]. a < fresh store_two_channels" by (simp add: store_two_channels_def)
  have s: "shape (cells store_two_channels 0) = [2, 2, 2]"
    by (simp add: store_two_channels_def two_channel_img_def)
  from fuse_bad_channels(2)[OF a _ s, of ext_relu]
  show "fst (fuse ext_relu [0] store_two_channels) = Inl IndexError" by simp
next
  have d: "\<forall>a\<in>set [0, 1]. ndim (cells store_mismatch a) = 2"
    by (simp add: store_mismatch_def ndim_def grey_img_def wide_img_def)
  have m: "\<exists>a\<in>set [0, 1]. \<exists>b\<in>set [0, 1]. shape (cells store_mismatch a) \<noteq> shape (cells store_mismatch b)"
    by (rule bexI[of _ 0], rule bexI[of _ 1])
       (simp_all add: store_mismatch_def grey_img_def wide_img_def)
  from fuse_mismatch[OF d m ext_relu_contract(4,5,1)]
  show "fst (fuse ext_relu [0, 1] store_mismatch) = Inl RuntimeError" by simp
qed

text \<open>The theorem on the same two calls, with the stand-ins for the libraries.\<close>

theorem fuse_exceptions_witness:
  "fst (fuse ext_relu [0] store_two_channels) = Inl IndexError \<and>
   fst (fuse ext_relu [0] store_two_channels) \<noteq> Inl ChannelError \<and>
   fst (fuse ext_relu [0, 1] store_mismatch) = Inl RuntimeError \<and>
   fst (fuse ext_relu [0, 1] store_mismatch) \<noteq> Inl DimensionMismatchError"
proof -
  have a: "\<forall>a\<in>set [0]. a < fresh store_two_channels" by (simp add: store_two_channels_def)
  have s: "\<exists>H W C. [0::nat] \<noteq> [] \<and> shape (cells store_two_channels (hd [0])) = [H, W, C] \<and> (C = 0 \<or> C = 2)"
    by (simp add: store_two_channels_def two_channel_img_def)
  have a2: "\<forall>a\<in>set [0, 1]. a < fresh store_mismatch" by (simp add: store_mismatch_def)
  have d: "\<forall>a\<in>set [0, 1]. ndim (cells store_mismatch a) = 2"
    by (simp add: store_mismatch_def ndim_def grey_img_def wide_img_def)
  have m: "\<exists>a\<in>set [0, 1]. \<exists>b\<in>set [0, 1]. shape (cells store_mismatch a) \<noteq> shape (cells store_mismatch b)"
    by (rule bexI[of _ 0], rule bexI[of _ 1])
       (simp_all add: store_mismatch_def grey_img_def wide_img_def)
  from fuse_exceptions[OF a ext_relu_contract(1,2,3)] s
  have "fst (fuse ext_relu [0] store_two_channels) = Inl IndexError \<and>
   fst (fuse ext_relu [0] store_two_channels) \<noteq> Inl ChannelError" by blast
  moreover from fuse_exceptions[OF a2 ext_relu_contract(1,2,3)] d m ext_relu_contract(4,5)
  have "fst (fuse ext_relu [0, 1] store_mismatch) = Inl RuntimeError \<and>
   fst (fuse ext_relu [0, 1] store_mismatch) \<noteq> Inl DimensionMismatchError" by blast
  ultimately show ?thesis by blast
qed

section \<open>Aligning a point set with a similar copy\<close>

lemma procrustes_best_Inr:
  assumes X: "shape X = [n, 2]" and Y: "shape Y = [n, 2]"
      and svd: "svd_shaped svd"
      and ret: "procrustes svd X Y True Best = Inr (d, Z, tf)"
  defines "muX \<equiv> mean0 X" and "muY \<equiv> mean0 Y"
  defines "normX \<equiv> sqrt (sum_sq (sub_row X (mean0 X)))"
      and "normY \<equiv> sqrt (sum_sq (sub_row Y (mean0 Y)))"
  defines "X0 \<equiv> div_scalar (sub_row X (mean0 X)) (sqrt (sum_sq (sub_row X (mean0 X))))"
      and "Y0 \<equiv> div_scalar (sub_row Y (mean0 Y)) (sqrt (sum_sq (sub_row Y (mean0 Y))))"
  defines "A \<equiv> mk2 2 2 (\<lambda>i j. \<Sum>k<n. at2 X0 k i * at2 Y0 k j)"
  shows "\<exists>U sv Vt. svd A = Inr (U, sv, Vt) \<and> shape U = [2, 2] \<and> shape sv = [2] \<and>
           shape Vt = [2, 2] \<and> normX \<noteq> 0 \<and> normY \<noteq> 0 \<and>
           d = 1 - (at1 sv 0 + at1 sv 1)\<^sup>2 \<and>
           scale tf = (at1 sv 0 + at1 sv 1) * normX / normY \<and>
           (\<forall>i j. at2 (rotation tf) i j = at2 Vt 0 i * at2 U j 0 + at2 Vt 1 i * at2 U j 1) \<and>
           shape (rotation tf) = [2, 2] \<and> shape Z = [n, 2] \<and> shape (translation tf) = [2] \<and>
           (\<forall>i j. at2 Z i j =
               normX * (at1 sv 0 + at1 sv 1) *
                 (at2 Y0 i 0 * at2 (rotation tf) 0 j + at2 Y0 i 1 * at2 (rotation tf) 1 j) +
               at1 muX j) \<and>
           (\<forall>j. at1 (translation tf) j =
               at1 muX j - scale tf *
                 (at1 muY 0 * at2 (rotation tf) 0 j + at1 muY 1 * at2 (rotation tf) 1 j))"
proof -
  have shp: "ndim X = 2" "ndim Y = 2" "nrows X = n" "ncols X = 2" "nrows Y = n" "ncols Y = 2"
    using X Y by (simp_all add: ndim_def nrows_def ncols_def)
  have dA: "dot (transpose2 X0) Y0 = Inr A"
    by (simp add: dot_def transpose2_def X0_def Y0_def div_scalar_def sub_row_def shp A_def)
  have nz: "\<not> (sqrt (sum_sq (sub_row X (mean0 X))) = 0 \<or> sqrt (sum_sq (sub_row Y (mean0 Y))) = 0)"
  proof
    assume "sqrt (sum_sq (sub_row X (mean0 X))) = 0 \<or> sqrt (sum_sq (sub_row Y (mean0 Y))) = 0"
    then have "procrustes svd X Y True Best = Inl LinAlgError"
      using dA unfolding procrustes_def Let_def X0_def Y0_def
      by (simp add: shp)
    with ret show False by simp
  qed
  obtain U sv Vt where sv: "svd A = Inr (U, sv, Vt)"
  proof (cases "svd A")
    case (Inl e)
    then have "procrustes svd X Y True Best = Inl e"
      using dA nz unfolding procrustes_def Let_def X0_def Y0_def
      by (simp add: shp)
    with ret show ?thesis by simp
  next
    case (Inr r)
    then show ?thesis using that by (cases r) auto
  qed
  have shA: "nrows A = 2" "ncols A = 2" by (simp_all add: A_def)
  from svd sv have shU: "shape U = [2, 2]" and shs: "shape sv = [2]" and shVt: "shape Vt = [2, 2]"
    unfolding svd_shaped_def using shA by (metis min.idem)+
  have shU': "nrows U = 2" "ncols U = 2" "nrows Vt = 2" "ncols Vt = 2" "nrows sv = 2"
    using shU shs shVt by (simp_all add: nrows_def ncols_def)
  define T0 where "T0 = mk2 2 2 (\<lambda>i j. \<Sum>k<2. at2 (transpose2 Vt) i k * at2 (transpose2 U) k j)"
  have dT0: "dot (transpose2 Vt) (transpose2 U) = Inr T0"
    by (simp add: dot_def transpose2_def shU' T0_def)
  have shY0: "nrows Y0 = n" "ncols Y0 = 2"
    by (simp_all add: Y0_def div_scalar_def shp sub_row_def)
  define YT where "YT = mk2 n 2 (\<lambda>i j. \<Sum>k<2. at2 Y0 i k * at2 T0 k j)"
  have dYT: "dot Y0 T0 = Inr YT"
    by (simp add: dot_def shY0 T0_def YT_def)
  define v where "v = mk1 2 (\<lambda>j. \<Sum>k<2. at1 (mean0 Y) k * at2 T0 k j)"
  have dv: "dot_vec (mean0 Y) T0 = Inr v"
    by (simp add: dot_vec_def mean0_def shp T0_def v_def)
  have res0: "d = 1 - (vec_sum sv)\<^sup>2 \<and>
      Z = scale_add_row (sqrt (sum_sq (sub_row X (mean0 X))) * vec_sum sv) YT (mean0 X) \<and>
      tf = \<lparr>rotation = T0,
             scale = vec_sum sv * sqrt (sum_sq (sub_row X (mean0 X))) /
                       sqrt (sum_sq (sub_row Y (mean0 Y))),
             translation = vec_sub_scaled (mean0 X)
                (vec_sum sv * sqrt (sum_sq (sub_row X (mean0 X))) /
                       sqrt (sum_sq (sub_row Y (mean0 Y)))) v\<rparr>"
    using ret dA nz sv dT0 dYT dv
    unfolding procrustes_def Let_def X0_def[symmetric] Y0_def[symmetric]
    by (auto simp add: shp)
  then have res: "d = 1 - (vec_sum sv)\<^sup>2 \<and> Z = scale_add_row (normX * vec_sum sv) YT muX \<and>
      tf = \<lparr>rotation = T0, scale = vec_sum sv * normX / normY,
             translation = vec_sub_scaled muX (vec_sum sv * normX / normY) v\<rparr>"
    by (simp add: normX_def normY_def muX_def)
  have nz': "normX \<noteq> 0" "normY \<noteq> 0" using nz by (simp_all add: normX_def normY_def)
  have vs: "vec_sum sv = at1 sv 0 + at1 sv 1"
    by (simp add: vec_sum_def shU' sum_lessThan_2)
  have rot: "at2 T0 i j = at2 Vt 0 i * at2 U j 0 + at2 Vt 1 i * at2 U j 1" for i j
    by (simp add: T0_def transpose2_def sum_lessThan_2)
  have "shape muX = [2]" by (simp add: muX_def mean0_def shp)
  then have nmu: "nrows muX = 2" by (simp add: nrows_def)
  show ?thesis
    using sv shU shs shVt nz' res vs rot
    by (simp add: scale_add_row_def YT_def vec_sub_scaled_def v_def sum_lessThan_2 T0_def nmu
        muY_def)
qed

lemma mm_assoc: "mm (mm A B) C = mm A (mm B C)"
  by (cases A; cases B; cases C) (simp add: algebra_simps)

lemma tp_mm: "tp (mm A B) = mm (tp B) (tp A)"
  by (cases A; cases B) (simp add: algebra_simps)

lemma tp_tp [simp]: "tp (tp A) = A"
  by (cases A) simp

lemma mm_I2 [simp]: "mm A I2 = A" "mm I2 A = A"
  by (cases A; simp add: I2_def)+

lemma tp_diag2 [simp]: "tp (diag2 x y) = diag2 x y"
  by (simp add: diag2_def)

lemma det2_mm: "det2 (mm A B) = det2 A * det2 B"
  by (cases A; cases B) (simp add: algebra_simps)

lemma det2_tp [simp]: "det2 (tp A) = det2 A"
  by (cases A) simp

lemma det2_diag2 [simp]: "det2 (diag2 x y) = x * y"
  by (simp add: diag2_def)

lemma det2_I2 [simp]: "det2 I2 = 1"
  by (simp add: I2_def)

lemma mm_left_cancel:
  assumes "det2 N \<noteq> 0" "mm N A = mm N B"
  shows "A = B"
proof -
  obtain p q r s where N: "N = (p, q, r, s)" by (cases N)
  obtain a b c d where A: "A = (a, b, c, d)" by (cases A)
  obtain e f g h where B: "B = (e, f, g, h)" by (cases B)
  from assms(1) N have dn: "p * s - q * r \<noteq> 0" by simp
  from assms(2) N A B have
    e1: "p * (a - e) + q * (c - g) = 0" and e2: "r * (a - e) + s * (c - g) = 0" and
    e3: "p * (b - f) + q * (d - h) = 0" and e4: "r * (b - f) + s * (d - h) = 0"
    by (simp_all add: algebra_simps)
  have "(p * s - q * r) * (a - e) = s * (p * (a - e) + q * (c - g)) - q * (r * (a - e) + s * (c - g))"
    by (simp add: algebra_simps)
  with e1 e2 dn have 1: "a = e" by simp
  have "(p * s - q * r) * (c - g) = p * (r * (a - e) + s * (c - g)) - r * (p * (a - e) + q * (c - g))"
    by (simp add: algebra_simps)
  with e1 e2 dn have 2: "c = g" by simp
  have "(p * s - q * r) * (b - f) = s * (p * (b - f) + q * (d - h)) - q * (r * (b - f) + s * (d - h))"
    by (simp add: algebra_simps)
  with e3 e4 dn have 3: "b = f" by simp
  have "(p * s - q * r) * (d - h) = p * (r * (b - f) + s * (d - h)) - r * (p * (b - f) + q * (d - h))"
    by (simp add: algebra_simps)
  with e3 e4 dn have 4: "d = h" by simp
  from 1 2 3 4 A B show ?thesis by simp
qed

lemma psd_root_unique:
  fixes a b d p q r :: real
  assumes tP: "0 \<le> a + d" and dP: "0 \<le> a * d - b * b"
      and tM: "0 < p + r" and dM: "0 < p * r - q * q"
      and e00: "a * a + b * b = p * p + q * q"
      and e01: "b * (a + d) = q * (p + r)"
      and e11: "b * b + d * d = q * q + r * r"
  shows "a = p \<and> b = q \<and> d = r"
proof -
  have "(a * d - b * b)\<^sup>2 = (a * a + b * b) * (b * b + d * d) - (b * (a + d))\<^sup>2"
    by (simp add: power2_eq_square algebra_simps)
  also have "\<dots> = (p * p + q * q) * (q * q + r * r) - (q * (p + r))\<^sup>2"
    by (simp add: e00 e01 e11)
  also have "\<dots> = (p * r - q * q)\<^sup>2"
    by (simp add: power2_eq_square algebra_simps)
  finally have det: "a * d - b * b = p * r - q * q"
    using dP dM by (simp add: power2_eq_iff_nonneg)
  have "(a + d)\<^sup>2 = (a * a + b * b) + (b * b + d * d) + 2 * (a * d - b * b)"
    by (simp add: power2_eq_square algebra_simps)
  also have "\<dots> = (p * p + q * q) + (q * q + r * r) + 2 * (p * r - q * q)"
    by (simp add: e00 e11 det)
  also have "\<dots> = (p + r)\<^sup>2"
    by (simp add: power2_eq_square algebra_simps)
  finally have tr: "a + d = p + r"
    using tP tM by (simp add: power2_eq_iff_nonneg)
  from e01 tr tM have b: "b = q" by simp
  have "(a - d) * (a + d) = (p - r) * (p + r)"
    using e00 e11 b by (simp add: algebra_simps)
  with tr tM have "a - d = p - r" by simp
  with tr have "a = p" "d = r" by simp_all
  with b show ?thesis by simp
qed

text \<open>The polar factor: the rotation that the decomposition of \<open>M R\<close> yields is the
  inverse of \<open>R\<close>, and the singular values sum to the trace of \<open>M\<close>.\<close>

lemma polar_factor:
  assumes A: "mm M R = mm (mm U (diag2 s0 s1)) Vt"
      and U: "mm (tp U) U = I2" and V: "mm Vt (tp Vt) = I2"
      and s: "0 \<le> s0" "0 \<le> s1"
      and R: "mm R (tp R) = I2"
      and M: "tp M = M" "0 < tr2 M" "0 < det2 M"
  shows "mm (tp Vt) (tp U) = tp R \<and> s0 + s1 = tr2 M"
proof -
  define S where "S = diag2 s0 s1"
  define T where "T = mm (tp Vt) (tp U)"
  define P where "P = mm (mm U S) (tp U)"
  have tS: "tp S = S" by (simp add: S_def)
  have A': "mm M R = mm (mm U S) Vt" using A by (simp add: S_def)
  have PT: "mm (mm M R) T = P"
  proof -
    have "mm (mm M R) T = mm (mm (mm U S) Vt) (mm (tp Vt) (tp U))"
      by (simp only: A' T_def)
    also have "\<dots> = mm (mm U S) (mm (mm Vt (tp Vt)) (tp U))"
      by (simp only: mm_assoc)
    also have "\<dots> = P" by (simp only: V mm_I2 P_def)
    finally show ?thesis .
  qed
  have symP: "tp P = P"
    by (simp only: P_def tp_mm tp_tp tS mm_assoc)
  have AAt: "mm (mm M R) (tp (mm M R)) = mm M M"
  proof -
    have "mm (mm M R) (tp (mm M R)) = mm M (mm (mm R (tp R)) (tp M))"
      by (simp only: tp_mm mm_assoc)
    also have "\<dots> = mm M M" by (simp only: R mm_I2 M(1))
    finally show ?thesis .
  qed
  have PP: "mm P P = mm M M"
  proof -
    have "mm P P = mm (mm U S) (mm (mm (tp U) U) (mm S (tp U)))"
      by (simp only: P_def mm_assoc)
    also have "\<dots> = mm (mm U S) (mm (mm Vt (tp Vt)) (mm S (tp U)))"
      by (simp only: U V)
    also have "\<dots> = mm (mm (mm U S) Vt) (tp (mm (mm U S) Vt))"
      by (simp only: tp_mm tS mm_assoc)
    also have "\<dots> = mm M M" by (simp only: A'[symmetric] AAt)
    finally show ?thesis .
  qed
  obtain u00 u01 u10 u11 where Ue: "U = (u00, u01, u10, u11)" by (cases U)
  have Uo: "u00 * u00 + u10 * u10 = 1" "u01 * u01 + u11 * u11 = 1"
    using U unfolding Ue I2_def by simp_all
  obtain a b c d where Pe: "P = (a, b, c, d)" by (cases P)
  have "fst (snd (tp P)) = fst (snd P)" by (simp only: symP)
  then have cb: "c = b" unfolding Pe by simp
  have trP: "a + d = s0 + s1"
  proof -
    have "tr2 P = s0 * (u00 * u00 + u10 * u10) + s1 * (u01 * u01 + u11 * u11)"
      unfolding P_def S_def Ue diag2_def by (simp add: algebra_simps)
    then show ?thesis using Uo Pe by simp
  qed
  have detP: "a * d - b * b = (det2 U)\<^sup>2 * (s0 * s1)"
  proof -
    have "det2 P = det2 U * (s0 * s1) * det2 U"
      unfolding P_def S_def by (simp only: det2_mm det2_tp det2_diag2)
    then show ?thesis using Pe cb by (simp add: power2_eq_square)
  qed
  obtain p q q' r where Me: "M = (p, q, q', r)" by (cases M)
  have "fst (snd (tp M)) = fst (snd M)" by (simp only: M(1))
  then have qq: "q' = q" unfolding Me by simp
  have PP': "mm (a, b, b, d) (a, b, b, d) = mm (p, q, q, r) (p, q, q, r)"
    using PP Pe cb Me qq by simp
  then have
    e00: "a * a + b * b = p * p + q * q" and e01: "b * (a + d) = q * (p + r)" and
    e11: "b * b + d * d = q * q + r * r"
    by (simp_all add: algebra_simps)
  have tP: "0 \<le> a + d" using trP s by simp
  have dP: "0 \<le> a * d - b * b" using detP s by simp
  have tM: "0 < p + r" using M(2) Me by simp
  have dM: "0 < p * r - q * q" using M(3) Me qq by simp
  from psd_root_unique[OF tP dP tM dM e00 e01 e11] have "a = p" "b = q" "d = r" by simp_all
  then have PM: "P = M" using Pe cb Me qq by simp
  have tr: "s0 + s1 = tr2 M" using trP Me \<open>a = p\<close> \<open>d = r\<close> by simp
  have "mm M (mm R T) = mm M I2"
    using PT PM by (simp only: mm_assoc mm_I2)
  moreover have "det2 M \<noteq> 0" using M(3) by simp
  ultimately have RT: "mm R T = I2" by (rule mm_left_cancel[rotated])
  have "det2 (mm R (tp R)) = 1" by (simp only: R det2_I2)
  then have "det2 R * det2 R = 1" by (simp only: det2_mm det2_tp)
  then have dR: "det2 R \<noteq> 0" by auto
  have "mm R T = mm R (tp R)" by (simp only: RT R)
  from mm_left_cancel[OF dR this] tr show ?thesis by (simp add: T_def)
qed

lemma at2_div_scalar_sub_row:
  "at2 (div_scalar (sub_row X mu) c) i j = (at2 X i j - at1 mu j) / c"
  by (simp add: div_scalar_def sub_row_def)

lemma at1_mean0: "at1 (mean0 X) j = (\<Sum>i<nrows X. at2 X i j) / real (nrows X)"
  by (simp add: mean0_def)

lemma sum_sq_sub_row:
  assumes "shape X = [n, 2]"
  shows "sum_sq (sub_row X (mean0 X)) = scatter X 0 0 + scatter X 1 1"
proof -
  have "nrows X = n" "ncols X = 2" using assms by (simp_all add: nrows_def ncols_def)
  then show ?thesis
    by (simp add: sum_sq_def sub_row_def scatter_def sum_lessThan_2 power2_eq_square sum.distrib)
qed

lemma scatter_nonneg: "0 \<le> scatter X a a"
  by (simp add: scatter_def sum_nonneg)

lemma scatter_sym: "scatter X a b = scatter X b a"
  by (simp add: scatter_def mult.commute)

lemma nondegenerate_pos:
  assumes "nondegenerate X"
  shows "0 < scatter X 0 0" "0 < scatter X 1 1" "0 < nrows X"
proof -
  have p: "0 < scatter X 0 0 * scatter X 1 1"
    using assms unfolding nondegenerate_def
    by (smt (verit) zero_le_square)
  have a: "0 \<le> scatter X 0 0" "0 \<le> scatter X 1 1" by (rule scatter_nonneg)+
  show "0 < scatter X 0 0" using p a by (metis less_eq_real_def mult_zero_left less_irrefl)
  show "0 < scatter X 1 1" using p a by (metis less_eq_real_def mult_zero_right less_irrefl)
  show "0 < nrows X"
  proof (rule ccontr)
    assume "\<not> 0 < nrows X"
    then have "scatter X 0 0 = 0" by (simp add: scatter_def)
    with p show False by simp
  qed
qed

lemma similar_copy_D:
  assumes "similar_copy X s R t Y" "shape X = [n, 2]"
  shows "shape Y = [n, 2]" "orthogonal2 R" "0 < s"
    "\<And>i j. i < n \<Longrightarrow> j < 2 \<Longrightarrow>
       at2 Y i j = s * (at2 X i 0 * at2 R 0 j + at2 X i 1 * at2 R 1 j) + at1 t j"
  using assms by (auto simp: similar_copy_def list_all_iff nrows_def)

lemma orthogonal2_rows:
  assumes "orthogonal2 R"
  shows "(a * at2 R 0 0 + b * at2 R 1 0)\<^sup>2 + (a * at2 R 0 1 + b * at2 R 1 1)\<^sup>2 = a\<^sup>2 + b\<^sup>2"
proof -
  let ?p = "at2 R 0 0" and ?q = "at2 R 0 1" and ?r = "at2 R 1 0" and ?u = "at2 R 1 1"
  have "(a * ?p + b * ?r)\<^sup>2 + (a * ?q + b * ?u)\<^sup>2 =
        a\<^sup>2 * (?p\<^sup>2 + ?q\<^sup>2) + b\<^sup>2 * (?r\<^sup>2 + ?u\<^sup>2) + 2 * a * b * (?p * ?r + ?q * ?u)"
    by (simp add: power2_eq_square algebra_simps)
  then show ?thesis using assms by (simp add: orthogonal2_def)
qed

lemma copy_centred:
  assumes X: "shape X = [n, 2]" and sim: "similar_copy X s R t Y" and nd: "nondegenerate X"
  shows "\<And>j. j < 2 \<Longrightarrow> at1 (mean0 Y) j =
           s * (at1 (mean0 X) 0 * at2 R 0 j + at1 (mean0 X) 1 * at2 R 1 j) + at1 t j"
    and "\<And>i j. i < n \<Longrightarrow> j < 2 \<Longrightarrow> at2 Y i j - at1 (mean0 Y) j =
           s * ((at2 X i 0 - at1 (mean0 X) 0) * at2 R 0 j +
                (at2 X i 1 - at1 (mean0 X) 1) * at2 R 1 j)"
    and "sum_sq (sub_row Y (mean0 Y)) = s\<^sup>2 * sum_sq (sub_row X (mean0 X))"
proof -
  note D = similar_copy_D[OF sim X]
  have nX: "nrows X = n" "ncols X = 2" using X by (simp_all add: nrows_def ncols_def)
  have nY: "nrows Y = n" "ncols Y = 2" using D(1) by (simp_all add: nrows_def ncols_def)
  have npos: "0 < n" using nondegenerate_pos(3)[OF nd] nX by simp
  show mu: "at1 (mean0 Y) j =
           s * (at1 (mean0 X) 0 * at2 R 0 j + at1 (mean0 X) 1 * at2 R 1 j) + at1 t j"
    if j: "j < 2" for j
  proof -
    have "(\<Sum>i<n. at2 Y i j) =
          (\<Sum>i<n. s * (at2 X i 0 * at2 R 0 j + at2 X i 1 * at2 R 1 j) + at1 t j)"
      by (rule sum.cong) (use D(4) j in auto)
    also have "\<dots> = s * ((\<Sum>i<n. at2 X i 0) * at2 R 0 j + (\<Sum>i<n. at2 X i 1) * at2 R 1 j) +
          real n * at1 t j"
      by (simp add: sum.distrib sum_distrib_left sum_distrib_right algebra_simps)
    finally have "(\<Sum>i<n. at2 Y i j) / real n =
        s * ((\<Sum>i<n. at2 X i 0) / real n * at2 R 0 j + (\<Sum>i<n. at2 X i 1) / real n * at2 R 1 j) +
          at1 t j"
      using npos by (simp add: field_simps)
    then show ?thesis by (simp add: at1_mean0 nX nY)
  qed
  show yc: "at2 Y i j - at1 (mean0 Y) j =
           s * ((at2 X i 0 - at1 (mean0 X) 0) * at2 R 0 j +
                (at2 X i 1 - at1 (mean0 X) 1) * at2 R 1 j)"
    if "i < n" "j < 2" for i j
    using D(4)[OF that] mu[OF that(2)] by (simp add: algebra_simps)
  have row: "(\<Sum>j<2. (at2 Y i j - at1 (mean0 Y) j)\<^sup>2) =
             s\<^sup>2 * (\<Sum>j<2. (at2 X i j - at1 (mean0 X) j)\<^sup>2)" if i: "i < n" for i
  proof -
    let ?a = "at2 X i 0 - at1 (mean0 X) 0" and ?b = "at2 X i 1 - at1 (mean0 X) 1"
    have g: "(s * u)\<^sup>2 + (s * v)\<^sup>2 = s\<^sup>2 * (u\<^sup>2 + v\<^sup>2)" for u v :: real
      by (simp add: power_mult_distrib distrib_left)
    have e: "(\<Sum>j<2. g j) = g 0 + g 1" for g :: "nat \<Rightarrow> real"
      by (simp add: numeral_2_eq_2)
    have y0: "at2 Y i 0 - at1 (mean0 Y) 0 = s * (?a * at2 R 0 0 + ?b * at2 R 1 0)"
      using yc[OF i, of 0] by simp
    have y1: "at2 Y i 1 - at1 (mean0 Y) 1 = s * (?a * at2 R 0 1 + ?b * at2 R 1 1)"
      using yc[OF i, of 1] by simp
    have "(\<Sum>j<2. (at2 Y i j - at1 (mean0 Y) j)\<^sup>2) =
          (s * (?a * at2 R 0 0 + ?b * at2 R 1 0))\<^sup>2 + (s * (?a * at2 R 0 1 + ?b * at2 R 1 1))\<^sup>2"
      by (simp only: e y0 y1)
    also have "\<dots> = s\<^sup>2 * ((?a * at2 R 0 0 + ?b * at2 R 1 0)\<^sup>2 + (?a * at2 R 0 1 + ?b * at2 R 1 1)\<^sup>2)"
      by (rule g)
    also have "\<dots> = s\<^sup>2 * (?a\<^sup>2 + ?b\<^sup>2)"
      by (simp only: orthogonal2_rows[OF D(2)])
    finally show ?thesis by (simp only: e)
  qed
  have "sum_sq (sub_row Y (mean0 Y)) = (\<Sum>i<n. \<Sum>j<2. (at2 Y i j - at1 (mean0 Y) j)\<^sup>2)"
    by (simp add: sum_sq_def sub_row_def nY)
  also have "\<dots> = (\<Sum>i<n. s\<^sup>2 * (\<Sum>j<2. (at2 X i j - at1 (mean0 X) j)\<^sup>2))"
    by (rule sum.cong) (use row in auto)
  also have "\<dots> = s\<^sup>2 * sum_sq (sub_row X (mean0 X))"
    by (simp add: sum_sq_def sub_row_def nX sum_distrib_left)
  finally show "sum_sq (sub_row Y (mean0 Y)) = s\<^sup>2 * sum_sq (sub_row X (mean0 X))" .
qed

lemma normalised_scatter_facts:
  assumes nd: "nondegenerate X"
  shows "tp (normalised_scatter X) = normalised_scatter X"
    "tr2 (normalised_scatter X) = 1"
    "0 < det2 (normalised_scatter X)"
proof -
  let ?q = "scatter X 0 0 + scatter X 1 1"
  have q: "0 < ?q" using nondegenerate_pos(1,2)[OF nd] by simp
  show "tp (normalised_scatter X) = normalised_scatter X"
    by (simp add: normalised_scatter_def Let_def)
  show "tr2 (normalised_scatter X) = 1"
    using q by (simp add: normalised_scatter_def Let_def add_divide_distrib[symmetric])
  have "det2 (normalised_scatter X) =
        (scatter X 0 0 * scatter X 1 1 - scatter X 0 1 * scatter X 0 1) / (?q * ?q)"
    by (simp add: normalised_scatter_def Let_def diff_divide_distrib)
  also have "0 < \<dots>" using nd q by (simp add: nondegenerate_def)
  finally show "0 < det2 (normalised_scatter X)" .
qed

lemma copy_normalised:
  assumes X: "shape X = [n, 2]" and sim: "similar_copy X s R t Y" and nd: "nondegenerate X"
  defines "X0 \<equiv> div_scalar (sub_row X (mean0 X)) (sqrt (sum_sq (sub_row X (mean0 X))))"
      and "Y0 \<equiv> div_scalar (sub_row Y (mean0 Y)) (sqrt (sum_sq (sub_row Y (mean0 Y))))"
  shows "sqrt (sum_sq (sub_row Y (mean0 Y))) = s * sqrt (sum_sq (sub_row X (mean0 X)))"
    and "\<And>i j. i < n \<Longrightarrow> j < 2 \<Longrightarrow>
           at2 Y0 i j = at2 X0 i 0 * at2 R 0 j + at2 X0 i 1 * at2 R 1 j"
    and "\<And>a b. a < 2 \<Longrightarrow> b < 2 \<Longrightarrow> (\<Sum>k<n. at2 X0 k a * at2 X0 k b) =
           scatter X a b / (scatter X 0 0 + scatter X 1 1)"
proof -
  note D = similar_copy_D[OF sim X]
  note C = copy_centred[OF X sim nd]
  let ?q = "scatter X 0 0 + scatter X 1 1"
  have q: "0 < ?q" using nondegenerate_pos(1,2)[OF nd] by simp
  have ssX: "sum_sq (sub_row X (mean0 X)) = ?q" by (rule sum_sq_sub_row[OF X])
  have nX: "nrows X = n" using X by (simp add: nrows_def)
  have sq: "sqrt ?q * sqrt ?q = ?q" using q by simp
  have sqpos: "0 < sqrt ?q" using q by simp
  show nY: "sqrt (sum_sq (sub_row Y (mean0 Y))) = s * sqrt (sum_sq (sub_row X (mean0 X)))"
    using D(3) by (simp add: C(3) real_sqrt_mult)
  show "at2 Y0 i j = at2 X0 i 0 * at2 R 0 j + at2 X0 i 1 * at2 R 1 j" if "i < n" "j < 2" for i j
  proof -
    have "at2 Y0 i j = (at2 Y i j - at1 (mean0 Y) j) / (s * sqrt ?q)"
      by (simp only: Y0_def at2_div_scalar_sub_row nY ssX)
    also have "\<dots> = ((at2 X i 0 - at1 (mean0 X) 0) * at2 R 0 j +
                (at2 X i 1 - at1 (mean0 X) 1) * at2 R 1 j) / sqrt ?q"
      using D(3) by (simp only: C(2)[OF that]) simp
    also have "\<dots> = at2 X0 i 0 * at2 R 0 j + at2 X0 i 1 * at2 R 1 j"
      by (simp only: X0_def at2_div_scalar_sub_row ssX add_divide_distrib times_divide_eq_left)
    finally show ?thesis .
  qed
  show "(\<Sum>k<n. at2 X0 k a * at2 X0 k b) = scatter X a b / ?q" if "a < 2" "b < 2" for a b
  proof -
    have "(\<Sum>k<n. at2 X0 k a * at2 X0 k b) =
          (\<Sum>k<n. (at2 X k a - at1 (mean0 X) a) * (at2 X k b - at1 (mean0 X) b) / ?q)"
    proof (rule sum.cong)
      fix k
      have "at2 X0 k a * at2 X0 k b =
            (at2 X k a - at1 (mean0 X) a) * (at2 X k b - at1 (mean0 X) b) / (sqrt ?q * sqrt ?q)"
        by (simp only: X0_def at2_div_scalar_sub_row ssX times_divide_times_eq)
      then show "at2 X0 k a * at2 X0 k b =
            (at2 X k a - at1 (mean0 X) a) * (at2 X k b - at1 (mean0 X) b) / ?q"
        by (simp only: sq)
    qed simp
    also have "\<dots> = scatter X a b / ?q"
      by (simp only: scatter_def nX sum_divide_distrib)
    finally show ?thesis .
  qed
qed

lemma copy_cross_matrix:
  assumes X: "shape X = [n, 2]" and sim: "similar_copy X s R t Y" and nd: "nondegenerate X"
  defines "X0 \<equiv> div_scalar (sub_row X (mean0 X)) (sqrt (sum_sq (sub_row X (mean0 X))))"
      and "Y0 \<equiv> div_scalar (sub_row Y (mean0 Y)) (sqrt (sum_sq (sub_row Y (mean0 Y))))"
  defines "A \<equiv> mk2 2 2 (\<lambda>i j. \<Sum>k<n. at2 X0 k i * at2 Y0 k j)"
  shows "m2 A = mm (normalised_scatter X) (m2 R)"
proof -
  note N = copy_normalised[OF X sim nd, folded X0_def Y0_def]
  let ?q = "scatter X 0 0 + scatter X 1 1"
  have el: "at2 A a b = scatter X a 0 / ?q * at2 R 0 b + scatter X a 1 / ?q * at2 R 1 b"
    if ab: "a < 2" "b < 2" for a b
  proof -
    have "at2 A a b = (\<Sum>k<n. at2 X0 k a * (at2 X0 k 0 * at2 R 0 b + at2 X0 k 1 * at2 R 1 b))"
      unfolding A_def at2_mk2 by (rule sum.cong) (use N(2) ab in auto)
    also have "\<dots> = (\<Sum>k<n. at2 X0 k a * at2 X0 k 0) * at2 R 0 b +
                     (\<Sum>k<n. at2 X0 k a * at2 X0 k 1) * at2 R 1 b"
      by (simp add: distrib_left sum.distrib sum_distrib_right mult.assoc)
    also have "\<dots> = scatter X a 0 / ?q * at2 R 0 b + scatter X a 1 / ?q * at2 R 1 b"
      using N(3)[OF ab(1), of 0] N(3)[OF ab(1), of 1] by simp
    finally show ?thesis .
  qed
  have e00: "at2 A 0 0 = scatter X 0 0 / ?q * at2 R 0 0 + scatter X 0 1 / ?q * at2 R 1 0"
    using el[of 0 0] by simp
  have e01: "at2 A 0 1 = scatter X 0 0 / ?q * at2 R 0 1 + scatter X 0 1 / ?q * at2 R 1 1"
    using el[of 0 1] by simp
  have e10: "at2 A 1 0 = scatter X 0 1 / ?q * at2 R 0 0 + scatter X 1 1 / ?q * at2 R 1 0"
    using el[of 1 0] scatter_sym[of X 1 0] by simp
  have e11: "at2 A 1 1 = scatter X 0 1 / ?q * at2 R 0 1 + scatter X 1 1 / ?q * at2 R 1 1"
    using el[of 1 1] scatter_sym[of X 1 0] by simp
  show ?thesis
    by (simp only: m2_def normalised_scatter_def Let_def mm.simps e00 e01 e10 e11)
qed

lemma svd_valid_shaped: "svd_valid svd \<Longrightarrow> svd_shaped svd"
  unfolding svd_valid_def svd_shaped_def Let_def by blast

lemma svd_valid_mat2:
  assumes v: "svd_valid svd" and sv: "svd A = Inr (U, sv, Vt)" and A: "shape A = [2, 2]"
  shows "m2 A = mm (mm (m2 U) (diag2 (at1 sv 0) (at1 sv 1))) (m2 Vt)"
    and "mm (tp (m2 U)) (m2 U) = I2"
    and "mm (m2 Vt) (tp (m2 Vt)) = I2"
    and "0 \<le> at1 sv 0" and "0 \<le> at1 sv 1"
proof -
  have sh: "nrows A = 2" "ncols A = 2" using A by (simp_all add: nrows_def ncols_def)
  from v sv have "let r = nrows A; c = ncols A; k = min r c in
         shape U = [r, k] \<and> shape sv = [k] \<and> shape Vt = [k, c] \<and>
         (\<forall>i<r. \<forall>j<c. at2 A i j = (\<Sum>l<k. at2 U i l * at1 sv l * at2 Vt l j)) \<and>
         (\<forall>l<k. \<forall>m<k. (\<Sum>i<r. at2 U i l * at2 U i m) = (if l = m then 1 else 0)) \<and>
         (\<forall>l<k. \<forall>m<k. (\<Sum>j<c. at2 Vt l j * at2 Vt m j) = (if l = m then 1 else 0)) \<and>
         (\<forall>l<k. 0 \<le> at1 sv l)"
    unfolding svd_valid_def by blast
  then have all:
    "(\<forall>i<2. \<forall>j<2. at2 A i j = (\<Sum>l<2. at2 U i l * at1 sv l * at2 Vt l j)) \<and>
     (\<forall>l<2. \<forall>m<2. (\<Sum>i<2. at2 U i l * at2 U i m) = (if l = m then 1 else 0)) \<and>
     (\<forall>l<2. \<forall>m<2. (\<Sum>j<2. at2 Vt l j * at2 Vt m j) = (if l = m then 1 else 0)) \<and>
     (\<forall>l<2. 0 \<le> at1 sv l)"
    unfolding Let_def sh min.idem by blast
  have a: "at2 A i j = (\<Sum>l<2. at2 U i l * at1 sv l * at2 Vt l j)" if "i < 2" "j < 2" for i j
    using all that by blast
  have u: "(\<Sum>i<2. at2 U i l * at2 U i m) = (if l = m then 1 else 0)" if "l < 2" "m < 2" for l m
    using all that by blast
  have w: "(\<Sum>j<2. at2 Vt l j * at2 Vt m j) = (if l = m then 1 else 0)" if "l < 2" "m < 2" for l m
    using all that by blast
  have s: "0 \<le> at1 sv l" if "l < 2" for l
    using all that by blast
  show "0 \<le> at1 sv 0" "0 \<le> at1 sv 1" using s[of 0] s[of 1] by simp_all
  show "m2 A = mm (mm (m2 U) (diag2 (at1 sv 0) (at1 sv 1))) (m2 Vt)"
    using a[of 0 0] a[of 0 1] a[of 1 0] a[of 1 1]
    by (simp add: m2_def diag2_def sum_lessThan_2)
  show "mm (tp (m2 U)) (m2 U) = I2"
    using u[of 0 0] u[of 0 1] u[of 1 0] u[of 1 1]
    by (simp add: m2_def I2_def sum_lessThan_2)
  show "mm (m2 Vt) (tp (m2 Vt)) = I2"
    using w[of 0 0] w[of 0 1] w[of 1 0] w[of 1 1]
    by (simp add: m2_def I2_def sum_lessThan_2)
qed

lemma orthogonal2_mat2:
  assumes "orthogonal2 R"
  shows "mm (m2 R) (tp (m2 R)) = I2"
  using assms by (simp add: orthogonal2_def m2_def I2_def power2_eq_square mult.commute)

lemma procrustes_best_cases:
  assumes X: "shape X = [n, 2]" and Y: "shape Y = [n, 2]"
      and svd: "svd_shaped svd"
      and nz: "sqrt (sum_sq (sub_row X (mean0 X))) \<noteq> 0" "sqrt (sum_sq (sub_row Y (mean0 Y))) \<noteq> 0"
  defines "X0 \<equiv> div_scalar (sub_row X (mean0 X)) (sqrt (sum_sq (sub_row X (mean0 X))))"
      and "Y0 \<equiv> div_scalar (sub_row Y (mean0 Y)) (sqrt (sum_sq (sub_row Y (mean0 Y))))"
  defines "A \<equiv> mk2 2 2 (\<lambda>i j. \<Sum>k<n. at2 X0 k i * at2 Y0 k j)"
  shows "svd A = Inl e \<Longrightarrow> procrustes svd X Y True Best = Inl e"
    and "svd A = Inr r \<Longrightarrow> \<exists>d Z tf. procrustes svd X Y True Best = Inr (d, Z, tf)"
proof -
  have shp: "ndim X = 2" "ndim Y = 2" "nrows X = n" "ncols X = 2" "nrows Y = n" "ncols Y = 2"
    using X Y by (simp_all add: ndim_def nrows_def ncols_def)
  have dA: "dot (transpose2 X0) Y0 = Inr A"
    by (simp add: dot_def transpose2_def X0_def Y0_def div_scalar_def sub_row_def shp A_def)
  show "procrustes svd X Y True Best = Inl e" if "svd A = Inl e"
    using that dA nz unfolding procrustes_def Let_def X0_def Y0_def
    by (simp add: shp)
  show "\<exists>d Z tf. procrustes svd X Y True Best = Inr (d, Z, tf)" if r: "svd A = Inr r"
  proof -
    obtain U sv Vt where sv: "svd A = Inr (U, sv, Vt)" using r by (cases r) auto
    have shA: "nrows A = 2" "ncols A = 2" by (simp_all add: A_def)
    from svd sv have shU: "shape U = [2, 2]" and shs: "shape sv = [2]" and shVt: "shape Vt = [2, 2]"
      unfolding svd_shaped_def using shA by (metis min.idem)+
    have shU': "nrows U = 2" "ncols U = 2" "nrows Vt = 2" "ncols Vt = 2" "nrows sv = 2"
      using shU shs shVt by (simp_all add: nrows_def ncols_def)
    define T0 where "T0 = mk2 2 2 (\<lambda>i j. \<Sum>k<2. at2 (transpose2 Vt) i k * at2 (transpose2 U) k j)"
    have dT0: "dot (transpose2 Vt) (transpose2 U) = Inr T0"
      by (simp add: dot_def transpose2_def shU' T0_def)
    have shY0: "nrows Y0 = n" "ncols Y0 = 2"
      by (simp_all add: Y0_def div_scalar_def shp sub_row_def)
    define YT where "YT = mk2 n 2 (\<lambda>i j. \<Sum>k<2. at2 Y0 i k * at2 T0 k j)"
    have dYT: "dot Y0 T0 = Inr YT"
      by (simp add: dot_def shY0 T0_def YT_def)
    define v where "v = mk1 2 (\<lambda>j. \<Sum>k<2. at1 (mean0 Y) k * at2 T0 k j)"
    have dv: "dot_vec (mean0 Y) T0 = Inr v"
      by (simp add: dot_vec_def mean0_def shp T0_def v_def)
    show ?thesis
      using dA nz sv dT0 dYT dv
      unfolding procrustes_def Let_def X0_def[symmetric] Y0_def[symmetric]
      by (simp add: shp)
  qed
qed

lemma procrustes_copy_returned:
  assumes X: "shape X = [n, 2]" and sim: "similar_copy X s R t Y" and nd: "nondegenerate X"
      and v: "svd_valid svd"
      and ret: "procrustes svd X Y True Best = Inr (d, Z, tf)"
  shows "d = 0" and "shape Z = [n, 2]" and "\<And>i j. i < n \<Longrightarrow> j < 2 \<Longrightarrow> at2 Z i j = at2 X i j"
    and "shape (rotation tf) = [2, 2]" and "m2 (rotation tf) = tp (m2 R)"
    and "scale tf = 1 / s"
    and "shape (translation tf) = [2]"
    and "\<And>j. j < 2 \<Longrightarrow>
           at1 (translation tf) j = - (at1 t 0 * at2 R j 0 + at1 t 1 * at2 R j 1) / s"
proof -
  note D = similar_copy_D[OF sim X]
  note C = copy_centred[OF X sim nd]
  note N = copy_normalised[OF X sim nd]
  define normX where "normX = sqrt (sum_sq (sub_row X (mean0 X)))"
  define X0 where "X0 = div_scalar (sub_row X (mean0 X)) (sqrt (sum_sq (sub_row X (mean0 X))))"
  define Y0 where "Y0 = div_scalar (sub_row Y (mean0 Y)) (sqrt (sum_sq (sub_row Y (mean0 Y))))"
  define A where "A = mk2 2 2 (\<lambda>i j. \<Sum>k<n. at2 X0 k i * at2 Y0 k j)"
  define T where "T = rotation tf"
  have nY: "sqrt (sum_sq (sub_row Y (mean0 Y))) = s * normX"
    using N(1) by (simp add: normX_def)
  obtain U sv Vt where sv: "svd A = Inr (U, sv, Vt)"
    and nz: "normX \<noteq> 0"
    and d: "d = 1 - (at1 sv 0 + at1 sv 1)\<^sup>2"
    and b: "scale tf = (at1 sv 0 + at1 sv 1) * normX / (s * normX)"
    and rot: "\<And>i j. at2 T i j = at2 Vt 0 i * at2 U j 0 + at2 Vt 1 i * at2 U j 1"
    and shapes: "shape T = [2, 2]" "shape Z = [n, 2]" "shape (translation tf) = [2]"
    and Zf: "\<And>i j. at2 Z i j = normX * (at1 sv 0 + at1 sv 1) *
                 (at2 Y0 i 0 * at2 T 0 j + at2 Y0 i 1 * at2 T 1 j) + at1 (mean0 X) j"
    and cf: "\<And>j. at1 (translation tf) j = at1 (mean0 X) j - scale tf *
                 (at1 (mean0 Y) 0 * at2 T 0 j + at1 (mean0 Y) 1 * at2 T 1 j)"
    using procrustes_best_Inr[OF X D(1) svd_valid_shaped[OF v] ret]
    unfolding A_def X0_def Y0_def normX_def T_def nY[unfolded normX_def] by blast
  have shA: "shape A = [2, 2]" by (simp add: A_def)
  note V = svd_valid_mat2[OF v sv shA]
  have fac: "m2 A = mm (normalised_scatter X) (m2 R)"
    unfolding A_def X0_def Y0_def by (rule copy_cross_matrix[OF X sim nd])
  note F = normalised_scatter_facts[OF nd]
  have pf: "mm (tp (m2 Vt)) (tp (m2 U)) = tp (m2 R) \<and> at1 sv 0 + at1 sv 1 = tr2 (normalised_scatter X)"
  proof (rule polar_factor)
    show "mm (normalised_scatter X) (m2 R) = mm (mm (m2 U) (diag2 (at1 sv 0) (at1 sv 1))) (m2 Vt)"
      using fac V(1) by simp
  qed (simp_all only: V F orthogonal2_mat2[OF D(2)])
  then have tr: "at1 sv 0 + at1 sv 1 = 1" by (simp add: F(2))
  have T: "m2 T = tp (m2 R)"
    using pf by (simp add: m2_def rot)
  then have Te: "at2 T 0 0 = at2 R 0 0" "at2 T 0 1 = at2 R 1 0"
      "at2 T 1 0 = at2 R 0 1" "at2 T 1 1 = at2 R 1 1"
    by (simp_all add: m2_def)
  have orth: "at2 R 0 0 * at2 R 0 0 + at2 R 0 1 * at2 R 0 1 = 1"
       "at2 R 1 0 * at2 R 1 0 + at2 R 1 1 * at2 R 1 1 = 1"
       "at2 R 0 0 * at2 R 1 0 + at2 R 0 1 * at2 R 1 1 = 0"
    using D(2) by (simp_all add: orthogonal2_def power2_eq_square)
  have rback: "(a * at2 R 0 0 + b * at2 R 1 0) * at2 T 0 j + (a * at2 R 0 1 + b * at2 R 1 1) * at2 T 1 j =
              (if j = 0 then a else b)" if j: "j < 2" for a b j
  proof -
    have e0: "(a * at2 R 0 0 + b * at2 R 1 0) * at2 R 0 0 + (a * at2 R 0 1 + b * at2 R 1 1) * at2 R 0 1 =
          a * (at2 R 0 0 * at2 R 0 0 + at2 R 0 1 * at2 R 0 1) +
          b * (at2 R 0 0 * at2 R 1 0 + at2 R 0 1 * at2 R 1 1)"
      by (simp add: algebra_simps)
    have e1: "(a * at2 R 0 0 + b * at2 R 1 0) * at2 R 1 0 + (a * at2 R 0 1 + b * at2 R 1 1) * at2 R 1 1 =
          a * (at2 R 0 0 * at2 R 1 0 + at2 R 0 1 * at2 R 1 1) +
          b * (at2 R 1 0 * at2 R 1 0 + at2 R 1 1 * at2 R 1 1)"
      by (simp add: algebra_simps)
    from j have "j = 0 \<or> j = 1" by auto
    then show ?thesis
    proof
      assume "j = 0"
      then show ?thesis by (simp only: Te e0 orth) simp
    next
      assume "j = 1"
      then show ?thesis by (simp only: Te e1 orth) simp
    qed
  qed
  show "d = 0" using d tr by simp
  show "shape Z = [n, 2]" by (rule shapes)
  show "shape (rotation tf) = [2, 2]" using shapes(1) by (simp add: T_def)
  show "shape (translation tf) = [2]" by (rule shapes)
  show "m2 (rotation tf) = tp (m2 R)" using T by (simp add: T_def)
  show sc: "scale tf = 1 / s" using b tr nz by simp
  show "at2 Z i j = at2 X i j" if i: "i < n" and j: "j < 2" for i j
  proof -
    have y0: "at2 Y0 i 0 = at2 X0 i 0 * at2 R 0 0 + at2 X0 i 1 * at2 R 1 0"
      and y1: "at2 Y0 i 1 = at2 X0 i 0 * at2 R 0 1 + at2 X0 i 1 * at2 R 1 1"
      using N(2)[OF i, of 0] N(2)[OF i, of 1] by (simp_all add: X0_def Y0_def)
    have "at2 Y0 i 0 * at2 T 0 j + at2 Y0 i 1 * at2 T 1 j = (if j = 0 then at2 X0 i 0 else at2 X0 i 1)"
      unfolding y0 y1 by (rule rback[OF j])
    also have "\<dots> = at2 X0 i j" using less_2_cases[OF j] by auto
    finally have "at2 Z i j = normX * 1 * at2 X0 i j + at1 (mean0 X) j"
      by (simp only: Zf tr)
    then have "at2 Z i j = normX * at2 X0 i j + at1 (mean0 X) j"
      by (simp only: mult_1_right)
    also have "\<dots> = at2 X i j"
      using nz by (simp add: X0_def at2_div_scalar_sub_row normX_def)
    finally show ?thesis .
  qed
  show "at1 (translation tf) j = - (at1 t 0 * at2 R j 0 + at1 t 1 * at2 R j 1) / s"
    if j: "j < 2" for j
  proof -
    let ?a = "at1 (mean0 X) 0" and ?b = "at1 (mean0 X) 1"
    have m0: "at1 (mean0 Y) 0 = s * (?a * at2 R 0 0 + ?b * at2 R 1 0) + at1 t 0"
      and m1: "at1 (mean0 Y) 1 = s * (?a * at2 R 0 1 + ?b * at2 R 1 1) + at1 t 1"
      using C(1)[of 0] C(1)[of 1] by simp_all
    have "at1 (mean0 Y) 0 * at2 T 0 j + at1 (mean0 Y) 1 * at2 T 1 j =
          s * ((?a * at2 R 0 0 + ?b * at2 R 1 0) * at2 T 0 j + (?a * at2 R 0 1 + ?b * at2 R 1 1) * at2 T 1 j) +
          (at1 t 0 * at2 T 0 j + at1 t 1 * at2 T 1 j)"
      unfolding m0 m1 by (simp add: algebra_simps)
    also have "\<dots> = s * (if j = 0 then ?a else ?b) + (at1 t 0 * at2 T 0 j + at1 t 1 * at2 T 1 j)"
      by (simp only: rback[OF j])
    also have "\<dots> = s * at1 (mean0 X) j + (at1 t 0 * at2 R j 0 + at1 t 1 * at2 R j 1)"
      using less_2_cases[OF j] Te by auto
    finally have "at1 (translation tf) j =
        at1 (mean0 X) j - 1 / s * (s * at1 (mean0 X) j + (at1 t 0 * at2 R j 0 + at1 t 1 * at2 R j 1))"
      by (simp only: cf sc)
    also have "\<dots> = - (at1 t 0 * at2 R j 0 + at1 t 1 * at2 R j 1) / s"
      using D(3) by (simp add: field_simps)
    finally show ?thesis .
  qed
qed

lemma svd_conformal_valid: "svd_valid svd_conformal"
  unfolding svd_valid_def
proof (intro allI impI)
  fix A U s Vt
  assume r: "svd_conformal A = Inr (U, s, Vt)"
  define a b c d where "a = at2 A 0 0" and "b = at2 A 0 1" and "c = at2 A 1 0" and "d = at2 A 1 1"
  define q where "q = sqrt (a\<^sup>2 + b\<^sup>2)"
  from r have cond: "shape A = [2, 2]" "a * c + b * d = 0" "a\<^sup>2 + b\<^sup>2 = c\<^sup>2 + d\<^sup>2" "q \<noteq> 0"
    and U: "U = mk2 2 2 (\<lambda>i j. if i = j then 1 else 0)"
    and s: "s = mk1 2 (\<lambda>k. q)"
    and Vt: "Vt = mk2 2 2 (\<lambda>i j. at2 A i j / q)"
    unfolding svd_conformal_def Let_def a_def b_def c_def d_def q_def
    by (simp_all split: if_splits)
  have sh: "nrows A = 2" "ncols A = 2" using cond(1) by (simp_all add: nrows_def ncols_def)
  have qq: "q * q = a\<^sup>2 + b\<^sup>2" unfolding q_def by simp
  have qpos: "0 \<le> q" unfolding q_def by simp
  have n0: "a * a + b * b = q * q" using qq by (simp add: power2_eq_square)
  have n1: "c * c + d * d = q * q" using qq cond(3) by (simp add: power2_eq_square)
  have rec: "at2 A i j = (\<Sum>l<2. at2 U i l * at1 s l * at2 Vt l j)" if "i < 2" "j < 2" for i j
    using less_2_cases[OF that(1)] cond(4) by (auto simp: U s Vt sum_lessThan_2)
  have uu: "(\<Sum>i<2. at2 U i l * at2 U i m) = (if l = m then 1 else 0)" if "l < 2" "m < 2" for l m
    using less_2_cases[OF that(1)] less_2_cases[OF that(2)] by (auto simp: U sum_lessThan_2)
  have vv: "(\<Sum>j<2. at2 Vt l j * at2 Vt m j) = (if l = m then 1 else 0)" if "l < 2" "m < 2" for l m
  proof -
    have e: "at2 Vt l 0 * at2 Vt m 0 + at2 Vt l 1 * at2 Vt m 1 =
             (at2 A l 0 * at2 A m 0 + at2 A l 1 * at2 A m 1) / (q * q)"
      by (simp add: Vt add_divide_distrib)
    have "at2 A l 0 * at2 A m 0 + at2 A l 1 * at2 A m 1 = (if l = m then q * q else 0)"
      using less_2_cases[OF that(1)] less_2_cases[OF that(2)] n0 n1 cond(2)
      by (auto simp: a_def b_def c_def d_def mult.commute)
    then show ?thesis using cond(4) by (simp add: sum_lessThan_2 e del: One_nat_def)
  qed
  show "let r = nrows A; c = ncols A; k = min r c in
         shape U = [r, k] \<and> shape s = [k] \<and> shape Vt = [k, c] \<and>
         (\<forall>i<r. \<forall>j<c. at2 A i j = (\<Sum>l<k. at2 U i l * at1 s l * at2 Vt l j)) \<and>
         (\<forall>l<k. \<forall>m<k. (\<Sum>i<r. at2 U i l * at2 U i m) = (if l = m then 1 else 0)) \<and>
         (\<forall>l<k. \<forall>m<k. (\<Sum>j<c. at2 Vt l j * at2 Vt m j) = (if l = m then 1 else 0)) \<and>
         (\<forall>l<k. 0 \<le> at1 s l)"
    unfolding Let_def sh min.idem
  proof (intro conjI allI impI)
    show "shape U = [2, 2]" by (simp add: U)
    show "shape s = [2]" by (simp add: s mk1_def)
    show "shape Vt = [2, 2]" by (simp add: Vt)
    show "\<And>l. l < 2 \<Longrightarrow> 0 \<le> at1 s l" using qpos by (simp add: s)
  qed (rule rec uu vv; assumption)+
qed

lemma scatter_cross4:
  "scatter cross4 0 0 = 2" "scatter cross4 0 1 = 0" "scatter cross4 1 1 = 2"
  by (simp_all add: scatter_def at1_mean0 cross4_def eval_nat_numeral)

lemma nondegenerate_cross4: "nondegenerate cross4"
  by (simp only: nondegenerate_def scatter_cross4)

lemma procrustes_cross4_returns:
  assumes sim: "similar_copy cross4 s R t Y"
  shows "\<exists>d Z tf. procrustes svd_conformal cross4 Y True Best = Inr (d, Z, tf)"
proof -
  have X: "shape cross4 = [4, 2]" by (simp add: cross4_def)
  note D = similar_copy_D[OF sim X]
  note N = copy_normalised[OF X sim nondegenerate_cross4]
  define X0 where "X0 = div_scalar (sub_row cross4 (mean0 cross4)) (sqrt (sum_sq (sub_row cross4 (mean0 cross4))))"
  define Y0 where "Y0 = div_scalar (sub_row Y (mean0 Y)) (sqrt (sum_sq (sub_row Y (mean0 Y))))"
  define A where "A = mk2 2 2 (\<lambda>i j. \<Sum>k<4. at2 X0 k i * at2 Y0 k j)"
  have nx: "sqrt (sum_sq (sub_row cross4 (mean0 cross4))) \<noteq> 0"
    by (simp only: sum_sq_sub_row[OF X] scatter_cross4) simp
  have ny: "sqrt (sum_sq (sub_row Y (mean0 Y))) \<noteq> 0"
    using nx D(3) by (simp only: N(1)) simp
  have fac: "m2 A = mm (normalised_scatter cross4) (m2 R)"
    unfolding A_def X0_def Y0_def by (rule copy_cross_matrix[OF X sim nondegenerate_cross4])
  have ns: "normalised_scatter cross4 = (1 / 2, 0, 0, 1 / 2)"
    by (simp only: normalised_scatter_def Let_def scatter_cross4) simp
  have e: "at2 A 0 0 = at2 R 0 0 / 2" "at2 A 0 1 = at2 R 0 1 / 2"
          "at2 A 1 0 = at2 R 1 0 / 2" "at2 A 1 1 = at2 R 1 1 / 2"
    using fac by (simp_all add: ns m2_def)
  have orth: "(at2 R 0 0)\<^sup>2 + (at2 R 0 1)\<^sup>2 = 1" "(at2 R 1 0)\<^sup>2 + (at2 R 1 1)\<^sup>2 = 1"
       "at2 R 0 0 * at2 R 1 0 + at2 R 0 1 * at2 R 1 1 = 0"
    using D(2) by (simp_all add: orthogonal2_def)
  have c1: "at2 A 0 0 * at2 A 1 0 + at2 A 0 1 * at2 A 1 1 = 0"
  proof -
    have "at2 A 0 0 * at2 A 1 0 + at2 A 0 1 * at2 A 1 1 =
          (at2 R 0 0 * at2 R 1 0 + at2 R 0 1 * at2 R 1 1) / 4"
      by (simp only: e) (simp add: add_divide_distrib)
    then show ?thesis by (simp only: orth)
  qed
  have c2: "(at2 A 0 0)\<^sup>2 + (at2 A 0 1)\<^sup>2 = 1 / 4"
  proof -
    have "(at2 A 0 0)\<^sup>2 + (at2 A 0 1)\<^sup>2 = ((at2 R 0 0)\<^sup>2 + (at2 R 0 1)\<^sup>2) / 4"
      by (simp only: e power_divide) (simp add: add_divide_distrib)
    then show ?thesis by (simp only: orth)
  qed
  have c3: "(at2 A 1 0)\<^sup>2 + (at2 A 1 1)\<^sup>2 = 1 / 4"
  proof -
    have "(at2 A 1 0)\<^sup>2 + (at2 A 1 1)\<^sup>2 = ((at2 R 1 0)\<^sup>2 + (at2 R 1 1)\<^sup>2) / 4"
      by (simp only: e power_divide) (simp add: add_divide_distrib)
    then show ?thesis by (simp only: orth)
  qed
  have "\<exists>r. svd_conformal A = Inr r"
    unfolding svd_conformal_def Let_def c1 c2 c3 by (simp add: A_def)
  then obtain r where r: "svd_conformal A = Inr r" ..
  show ?thesis
    by (rule procrustes_best_cases(2)[OF X D(1) svd_conformal_shaped nx ny r[unfolded A_def X0_def Y0_def]])
qed

text \<open>
  Claim C5, as the code has it, for point sets of the plane.  Let \<open>Y\<close> be a copy of the
  non-degenerate point set \<open>X\<close>: every point of \<open>Y\<close> is \<open>s x R + t\<close> for the point \<open>x\<close> of \<open>X\<close>,
  with \<open>R\<close> orthogonal, \<open>s > 0\<close>.  The call \<^verbatim>\<open>procrustes(X, Y)\<close> raises only what the
  decomposition routine raises on a 2 x 2 matrix; when it returns, the disparity is 0, the
  transformed points are those of \<open>X\<close>, and the transform is the one that takes \<open>Y\<close> back to
  \<open>X\<close>, the inverse of the one that was applied: the rotation is \<open>R\<^sup>T\<close>, the scale \<open>1/s\<close>,
  the translation \<open>-(t R\<^sup>T)/s\<close>.
\<close>

theorem procrustes_similar_copy:
  assumes X: "shape X = [n, 2]" and sim: "similar_copy X s R t Y" and nd: "nondegenerate X"
      and v: "svd_valid svd"
  shows "case procrustes svd X Y True Best of
           Inl e \<Rightarrow> \<exists>A. shape A = [2, 2] \<and> svd A = Inl e
         | Inr (d, Z, tf) \<Rightarrow>
             d = 0 \<and> shape Z = [n, 2] \<and> (\<forall>i<n. \<forall>j<2. at2 Z i j = at2 X i j) \<and>
             shape (rotation tf) = [2, 2] \<and> m2 (rotation tf) = tp (m2 R) \<and>
             scale tf = 1 / s \<and>
             shape (translation tf) = [2] \<and>
             (\<forall>j<2. at1 (translation tf) j =
                  - (at1 t 0 * at2 R j 0 + at1 t 1 * at2 R j 1) / s)"
proof (cases "procrustes svd X Y True Best")
  case (Inl e)
  note D = similar_copy_D[OF sim X]
  note N = copy_normalised[OF X sim nd]
  let ?q = "scatter X 0 0 + scatter X 1 1"
  have q: "0 < ?q" using nondegenerate_pos(1,2)[OF nd] by simp
  have nx: "sqrt (sum_sq (sub_row X (mean0 X))) \<noteq> 0"
    using q by (simp only: sum_sq_sub_row[OF X]) simp
  have ny: "sqrt (sum_sq (sub_row Y (mean0 Y))) \<noteq> 0"
    using nx D(3) by (simp only: N(1)) simp
  define A where "A = mk2 2 2 (\<lambda>i j. \<Sum>k<n.
      at2 (div_scalar (sub_row X (mean0 X)) (sqrt (sum_sq (sub_row X (mean0 X))))) k i *
      at2 (div_scalar (sub_row Y (mean0 Y)) (sqrt (sum_sq (sub_row Y (mean0 Y))))) k j)"
  note P = procrustes_best_cases[OF X D(1) svd_valid_shaped[OF v] nx ny, folded A_def]
  have "svd A = Inl e"
  proof (cases "svd A")
    case l: (Inl e')
    from P(1)[OF l] Inl show ?thesis using l by simp
  next
    case r: (Inr r)
    from P(2)[OF r] Inl show ?thesis by simp
  qed
  moreover have "shape A = [2, 2]" by (simp add: A_def)
  ultimately show ?thesis using Inl by auto
next
  case (Inr r)
  obtain d Z tf where r: "r = (d, Z, tf)" by (cases r)
  note P = procrustes_copy_returned[OF X sim nd v Inr[unfolded r]]
  show ?thesis
    unfolding Inr r using P by simp
qed

text \<open>The cross of four points, turned by a quarter, doubled and shifted by \<open>(1, 1)\<close>: the
  call returns the quarter turn back, the scale \<open>1/2\<close> and the translation
  \<open>(-1/2, 1/2)\<close>.\<close>

theorem procrustes_similar_copy_witness:
  "\<exists>d Z tf. procrustes svd_conformal cross4 cross4_moved True Best = Inr (d, Z, tf) \<and>
     d = 0 \<and> at2 Z 0 0 = 1 \<and> at2 Z 0 1 = 0 \<and> at2 Z 3 0 = 0 \<and> at2 Z 3 1 = - 1 \<and>
     m2 (rotation tf) = (0, - 1, 1, 0) \<and> scale tf = 1 / 2 \<and>
     at1 (translation tf) 0 = - 1 / 2 \<and> at1 (translation tf) 1 = 1 / 2"
proof -
  have X: "shape cross4 = [4, 2]" by (simp add: cross4_def)
  have sim: "similar_copy cross4 2 quarter_turn shift11 cross4_moved"
    by (simp add: similar_copy_def orthogonal2_def cross4_def cross4_moved_def quarter_turn_def
        shift11_def mk1_def at1_def eval_nat_numeral)
  from procrustes_cross4_returns[OF sim] obtain d Z tf where
    r: "procrustes svd_conformal cross4 cross4_moved True Best = Inr (d, Z, tf)" by blast
  from procrustes_similar_copy[OF X sim nondegenerate_cross4 svd_conformal_valid]
  have P: "d = 0" "\<forall>i<4. \<forall>j<2. at2 Z i j = at2 cross4 i j"
    "m2 (rotation tf) = tp (m2 quarter_turn)" "scale tf = 1 / 2"
    "\<forall>j<2. at1 (translation tf) j =
        - (at1 shift11 0 * at2 quarter_turn j 0 + at1 shift11 1 * at2 quarter_turn j 1) / 2"
    unfolding r by simp_all
  have Z: "at2 Z 0 0 = 1" "at2 Z 0 1 = 0" "at2 Z 3 0 = 0" "at2 Z 3 1 = - 1"
    using P(2) by (simp_all add: cross4_def)
  have T: "m2 (rotation tf) = (0, - 1, 1, 0)"
    using P(3) by (simp add: m2_def quarter_turn_def)
  have c: "at1 (translation tf) 0 = - 1 / 2" "at1 (translation tf) 1 = 1 / 2"
    using P(5)[rule_format, of 0] P(5)[rule_format, of 1]
    by (simp_all add: quarter_turn_def shift11_def)
  show ?thesis using r P(1,4) Z T c by simp
qed

lemma procrustes_cross4_doubled:
  "\<exists>d Z tf. procrustes svd_conformal cross4 cross4_doubled True Best = Inr (d, Z, tf) \<and>
     scale tf = 1 / 2"
proof -
  have X: "shape cross4 = [4, 2]" by (simp add: cross4_def)
  have sim: "similar_copy cross4 2 identity2 origin2 cross4_doubled"
    by (simp add: similar_copy_def orthogonal2_def cross4_def cross4_doubled_def identity2_def
        origin2_def mk1_def at1_def eval_nat_numeral)
  from procrustes_cross4_returns[OF sim] obtain d Z tf where
    r: "procrustes svd_conformal cross4 cross4_doubled True Best = Inr (d, Z, tf)" by blast
  from procrustes_copy_returned(6)[OF X sim nondegenerate_cross4 svd_conformal_valid r] r
  show ?thesis by simp
qed

text \<open>
  Claim C5 as the specification words it fails: the transform that is returned is not
  the one that was applied.  For the cross doubled in size (rotation the identity, scale
  2, no translation) the call returns the scale \<open>1/2\<close>.
\<close>

theorem procrustes_returns_inverse_scale:
  "similar_copy cross4 2 identity2 origin2 cross4_doubled \<and>
   map_sum id (scale \<circ> snd \<circ> snd) (procrustes svd_conformal cross4 cross4_doubled True Best) =
     Inr (1 / 2)"
proof
  show "similar_copy cross4 2 identity2 origin2 cross4_doubled"
    by (simp add: similar_copy_def orthogonal2_def cross4_def cross4_doubled_def identity2_def
        origin2_def mk1_def at1_def eval_nat_numeral)
  from procrustes_cross4_doubled
  show "map_sum id (scale \<circ> snd \<circ> snd) (procrustes svd_conformal cross4 cross4_doubled True Best) =
     Inr (1 / 2)" by auto
qed

end
